theory Spec2Isabelle
  imports Complex_Main
begin

section \<open>Floating-point numbers (the float64 column \<open>DC_Amount\<close> and the thresholds)\<close>

text \<open>
  \<open>_convert_fbl5n_data\<close> turns the amounts into a float64 column (\<open>pd.to_numeric\<close>,
  source line 470), and the thresholds of the clearing rules are Python floats. A
  float64 is a finite value, an infinity or NaN (IEEE 754 binary64). A finite value is
  held as the real number it denotes; zero has no sign here, since none of the
  operations used by the program (addition, absolute value, comparison) tells \<open>-0.0\<close>
  from \<open>0.0\<close>. A threshold the rules give as an integer is the float of that value.
\<close>

datatype float64 = Val real | PosInf | NegInf | NaN

text \<open>The number of binary digits of a positive integer (Python's \<open>int.bit_length\<close>).\<close>

function bit_length :: "int \<Rightarrow> int" where
  "bit_length n = (if n \<le> 0 then 0 else 1 + bit_length (n div 2))"
  by pat_completeness auto
termination
  by (relation "measure nat") auto

declare bit_length.simps [simp del]

text \<open>\<open>ilog2 a\<close> is the integer \<open>k\<close> with \<open>2 ^ k \<le> a < 2 ^ (k + 1)\<close>, for \<open>a > 0\<close>;
  \<open>pow2 e\<close> is \<open>2\<close> to the power \<open>e\<close>; \<open>rne\<close> rounds to the nearest integer, a tie to
  the even one.\<close>

definition ilog2 :: "real \<Rightarrow> int" where
  "ilog2 a = (if 1 \<le> a then bit_length \<lfloor>a\<rfloor> - 1 else - bit_length (\<lceil>1 / a\<rceil> - 1))"

definition pow2 :: "int \<Rightarrow> real" where
  "pow2 e = (if 0 \<le> e then 2 ^ nat e else 1 / 2 ^ nat (- e))"

definition rne :: "real \<Rightarrow> int" where
  "rne x =
     (let f = \<lfloor>x\<rfloor>; r = x - of_int f
      in if r < 1 / 2 then f else if 1 / 2 < r then f + 1 else if even f then f else f + 1)"

text \<open>
  Rounding of an exact result to float64, round-to-nearest with ties to even: 53
  significant binary digits, the exponent of the last digit not below \<open>-1074\<close>
  (subnormal numbers), and overflow to an infinity from \<open>2 ^ 1024\<close> on.
\<close>

definition round64 :: "real \<Rightarrow> float64" where
  "round64 x =
     (if x = 0 then Val 0
      else
        (let a = \<bar>x\<bar>;
             e = max (ilog2 a - 52) (- 1074);
             y = of_int (rne (a / pow2 e)) * pow2 e
         in if pow2 1024 \<le> y then (if 0 < x then PosInf else NegInf)
            else Val (if 0 < x then y else - y)))"

text \<open>Float addition, absolute value and the comparisons \<open><\<close> and \<open>==\<close>. A comparison
  with NaN is false.\<close>

definition f_add :: "float64 \<Rightarrow> float64 \<Rightarrow> float64" where
  "f_add x y =
     (case (x, y) of
        (NaN, _) \<Rightarrow> NaN
      | (_, NaN) \<Rightarrow> NaN
      | (PosInf, NegInf) \<Rightarrow> NaN
      | (NegInf, PosInf) \<Rightarrow> NaN
      | (PosInf, _) \<Rightarrow> PosInf
      | (_, PosInf) \<Rightarrow> PosInf
      | (NegInf, _) \<Rightarrow> NegInf
      | (_, NegInf) \<Rightarrow> NegInf
      | (Val a, Val b) \<Rightarrow> round64 (a + b))"

definition f_abs :: "float64 \<Rightarrow> float64" where
  "f_abs x = (case x of Val a \<Rightarrow> Val \<bar>a\<bar> | PosInf \<Rightarrow> PosInf | NegInf \<Rightarrow> PosInf | NaN \<Rightarrow> NaN)"

definition f_lt :: "float64 \<Rightarrow> float64 \<Rightarrow> bool" where
  "f_lt x y =
     (case (x, y) of
        (NaN, _) \<Rightarrow> False
      | (_, NaN) \<Rightarrow> False
      | (Val a, Val b) \<Rightarrow> a < b
      | (_, NegInf) \<Rightarrow> False
      | (PosInf, _) \<Rightarrow> False
      | (NegInf, _) \<Rightarrow> True
      | (_, PosInf) \<Rightarrow> True)"

definition f_eq :: "float64 \<Rightarrow> float64 \<Rightarrow> bool" where
  "f_eq x y = (x \<noteq> NaN \<and> x = y)"

text \<open>The float literal \<open>0.01\<close> of source line 733 and the float \<open>0.02\<close>: the float64
  values nearest to 1/100 and to 2/100.\<close>

definition float_0_01 :: float64 where
  "float_0_01 = Val (5764607523034235 / 576460752303423488)"

definition float_0_02 :: float64 where
  "float_0_02 = Val (5764607523034235 / 288230376151711744)"

text \<open>
  \<open>Series.sum()\<close> of a float64 column: pandas replaces NaN by 0 (\<open>skipna\<close>) and reduces
  the array with numpy's \<open>add\<close>, which starts from 0 and adds the pairwise sum of the
  array: fewer than 8 numbers are added from left to right; up to 128 numbers are added
  into 8 running sums (element \<open>i\<close> into the sum \<open>i mod 8\<close>, for the largest multiple of 8
  elements), the 8 sums are added as \<open>((r0+r1)+(r2+r3))+((r4+r5)+(r6+r7))\<close> and the
  remaining elements are added from left to right; a longer array is split in two at a
  multiple of 8 and the sums of the halves are added.
\<close>

function pairwise_sum :: "float64 list \<Rightarrow> float64" where
  "pairwise_sum a =
     (let n = length a
      in if n < 8 then foldl f_add (Val 0) a
         else if n \<le> 128 then
           (let m = n - n mod 8;
                r = foldl (\<lambda>r k. map2 f_add r (take 8 (drop (8 * k) a)))
                      (take 8 a) [1 ..< m div 8];
                res = f_add (f_add (f_add (r ! 0) (r ! 1)) (f_add (r ! 2) (r ! 3)))
                            (f_add (f_add (r ! 4) (r ! 5)) (f_add (r ! 6) (r ! 7)))
            in foldl f_add res (drop m a))
         else
           (let n2 = n div 2 - (n div 2) mod 8
            in f_add (pairwise_sum (take n2 a)) (pairwise_sum (drop n2 a))))"
  by pat_completeness auto
termination
  by (relation "measure length") auto

declare pairwise_sum.simps [simp del]

definition series_sum :: "float64 list \<Rightarrow> float64" where
  "series_sum xs =
     f_add (Val 0) (pairwise_sum (map (\<lambda>x. if x = NaN then Val 0 else x) xs))"

text \<open>The sum of the finite amounts in exact arithmetic, for comparison with
  \<open>series_sum\<close>.\<close>

definition exact_sum :: "float64 list \<Rightarrow> real" where
  "exact_sum xs = sum_list (map (\<lambda>x. case x of Val a \<Rightarrow> a | _ \<Rightarrow> 0) xs)"

section \<open>Data model of the record sets (engine/biaProcessor.py)\<close>

text \<open>
  A pandas DataFrame is a list of rows; the row label of the frames handled here is the
  position (\<open>pd.merge\<close> produces a fresh RangeIndex, \<open>sort_values\<close> only permutes
  unique labels). A nullable column (\<open>pd.NA\<close>) is an \<open>option\<close>. The column \<open>Tax\<close> is
  read with \<open>dtype = "string"\<close> (source line 361): an empty field is \<open>pd.NA\<close> (\<open>None\<close>
  here), a field of blanks or \<open>**\<close> becomes the empty string (source lines 378-381).

  \<open>fbl5n_row\<close> has the columns \<open>_parse_fbl5n_data\<close> creates (those the modelled
  functions read or write); every further column lives in the extension slot of the
  record scheme, so a statement about \<open>'a fbl5n_row_scheme\<close> covers it.
\<close>

record fbl5n_row =
  Document_Number :: nat
  Document_Type :: string
  DC_Amount :: float64
  Currency :: string
  Tax :: "string option"
  Text :: string
  Branch :: nat
  Head_Office :: nat
  ID :: "nat option"
  Virtual_ID :: "nat option"
  ID_Match :: bool
  Amount_Match :: bool
  Tax_Match :: bool
  Warnings :: string

text \<open>A row as \<open>_parse_fbl5n_data\<close> leaves it (source lines 390-412): the three match
  flags false, no warning, no virtual identifier, and the identifier taken from the
  text.\<close>

definition parsed_row ::
  "nat \<Rightarrow> string \<Rightarrow> float64 \<Rightarrow> string \<Rightarrow> string option \<Rightarrow> string \<Rightarrow> nat \<Rightarrow> nat
     \<Rightarrow> nat option \<Rightarrow> fbl5n_row" where
  "parsed_row doc_num doc_type amount currency tax txt branch head_off case_id =
     \<lparr>Document_Number = doc_num, Document_Type = doc_type, DC_Amount = amount,
      Currency = currency, Tax = tax, Text = txt, Branch = branch, Head_Office = head_off,
      ID = case_id, Virtual_ID = None, ID_Match = False, Amount_Match = False,
      Tax_Match = False, Warnings = []\<rparr>"

datatype error =
    AssertionError string
  | UnboundLocalError
  | KeyError string
  | TypeError
  | IndexError
  | OtherError string

text \<open>Module constants \<open>_NULL_TAX\<close>, \<open>INVALID_THRESHOLD\<close> and the local list
  \<open>allowed_tax_codes\<close> of \<open>evaluate_items\<close>.\<close>

definition NULL_TAX :: string where
  "NULL_TAX = ''''"

definition INVALID_THRESHOLD :: float64 where
  "INVALID_THRESHOLD = Val (- 1)"

definition allowed_tax_codes :: "string list" where
  "allowed_tax_codes =
     [''YR'', ''YN'', ''TT'', ''TZ'', ''YO'', ''C3'', ''IG'', ''K6'', ''AU'', ''UU'']"

section \<open>pandas primitives\<close>

text \<open>\<open>Series.unique()\<close>: the distinct values in order of first appearance; \<open>pd.NA\<close> is
  one of the values.\<close>

fun unique :: "'a list \<Rightarrow> 'a list" where
  "unique [] = []"
| "unique (x # xs) = x # unique (filter (\<lambda>y. y \<noteq> x) xs)"

text \<open>\<open>data.loc[mask, col] = v\<close> with a boolean row mask: every row the mask selects is
  updated, the others are kept.\<close>

definition loc_set :: "('r \<Rightarrow> bool) \<Rightarrow> ('r \<Rightarrow> 'r) \<Rightarrow> 'r list \<Rightarrow> 'r list" where
  "loc_set sel upd data = map (\<lambda>r. if sel r then upd r else r) data"

text \<open>\<open>data.loc[labels, col] = v\<close> with a list of row labels (positions).\<close>

definition loc_set_labels :: "nat list \<Rightarrow> ('r \<Rightarrow> 'r) \<Rightarrow> 'r list \<Rightarrow> 'r list" where
  "loc_set_labels labels upd data =
     map (\<lambda>(i, r). if i \<in> set labels then upd r else r) (enumerate 0 data)"

text \<open>\<open>id_values = data.loc[data["ID"].notna(), "ID"]\<close>: the non-null identifiers with
  their row labels.\<close>

definition id_values :: "'a fbl5n_row_scheme list \<Rightarrow> (nat \<times> nat) list" where
  "id_values data =
     concat (map (\<lambda>(i, r). case ID r of None \<Rightarrow> [] | Some v \<Rightarrow> [(i, v)])
                 (enumerate 0 data))"

text \<open>\<open>Series.duplicated(keep = False)\<close>: a value is marked when it occurs more than
  once in the series.\<close>

definition duplicated :: "(nat \<times> nat) list \<Rightarrow> (nat \<times> bool) list" where
  "duplicated ivs = map (\<lambda>(i, v). (i, 1 < count_list (map snd ivs) v)) ivs"

section \<open>Matching: \<open>evaluate_items\<close> and \<open>get_matched_items\<close>\<close>

text \<open>
  The tax part of one pass of the loop over the duplicated identifiers (source lines
  759-775), on the array \<open>id_taxes\<close> of the distinct tax codes of the group.
  \<open>_NULL_TAX in id_taxes\<close> compares every element with the empty string and is true
  when one of them is the empty string; \<open>pd.NA\<close> does not compare equal to it.
  \<open>id_taxes[id_taxes != _NULL_TAX]\<close> keeps the elements that compare unequal to the
  empty string; for \<open>pd.NA\<close> the comparison is \<open>pd.NA\<close>, which a boolean mask treats as
  false, so \<open>pd.NA\<close> is dropped as well (\<open>non_null_taxes\<close>); indexing the result with
  \<open>[0]\<close> raises \<open>IndexError\<close> when nothing is kept, which is the case of the codes
  \<open>{'', pd.NA}\<close>. \<open>tax_code_of\<close> is the value of the variable \<open>tax_code\<close> after the
  statement (or the exception), \<open>tax_compatible\<close> tells whether \<open>Tax_Match\<close> is written.
\<close>

definition non_null_taxes :: "string option list \<Rightarrow> string list" where
  "non_null_taxes id_taxes =
     concat (map (\<lambda>t. case t of None \<Rightarrow> [] | Some c \<Rightarrow> if c \<noteq> NULL_TAX then [c] else [])
                 id_taxes)"

definition tax_code_of :: "string option list \<Rightarrow> error + string option" where
  "tax_code_of id_taxes =
     (if length id_taxes = 1 then Inr (id_taxes ! 0)
      else if length id_taxes = 2 then
        (if Some NULL_TAX \<in> set id_taxes
         then (case non_null_taxes id_taxes of
                 [] \<Rightarrow> Inl IndexError
               | c # cs \<Rightarrow> Inr (Some c))
         else Inr (Some ''''))
      else Inr (Some ''''))"

definition tax_compatible :: "string option list \<Rightarrow> bool" where
  "tax_compatible id_taxes =
     (if length id_taxes = 1 then True
      else if length id_taxes = 2 then
        (if Some NULL_TAX \<in> set id_taxes
         then (case non_null_taxes id_taxes of
                 [] \<Rightarrow> False
               | c # cs \<Rightarrow> c \<in> set allowed_tax_codes)
         else False)
      else False)"

text \<open>Threshold resolution (source lines 777-780). The keys of \<open>tax_thresholds\<close> are
  strings; \<open>pd.NA\<close> is not among them (a key whose hash equals that of \<open>pd.NA\<close> is not
  considered).\<close>

definition resolve_thresh ::
  "float64 \<Rightarrow> (string \<rightharpoonup> float64) \<Rightarrow> string option \<Rightarrow> float64" where
  "resolve_thresh base_thresh tax_threshs tax_code =
     (case tax_code of
        None \<Rightarrow> base_thresh
      | Some c \<Rightarrow> (case tax_threshs c of Some t \<Rightarrow> t | None \<Rightarrow> base_thresh))"

text \<open>The amount condition (source line 789):
  \<open>abs(dc_amnts.sum()) < thresh and any(dc_amnts > 0) and any(dc_amnts < 0)\<close>.\<close>

definition amounts_match :: "float64 list \<Rightarrow> float64 \<Rightarrow> bool" where
  "amounts_match dc_amnts thresh =
     (f_lt (f_abs (series_sum dc_amnts)) thresh
      \<and> list_ex (\<lambda>a. f_lt (Val 0) a) dc_amnts
      \<and> list_ex (\<lambda>a. f_lt a (Val 0)) dc_amnts)"

text \<open>\<open>id_recs = data[data["ID"] == id_num]\<close>: the rows of one identifier (a null
  identifier compares as not equal).\<close>

definition id_recs_of :: "'a fbl5n_row_scheme list \<Rightarrow> nat \<Rightarrow> 'a fbl5n_row_scheme list" where
  "id_recs_of data id_num = filter (\<lambda>r. ID r = Some id_num) data"

text \<open>One pass of the loop body for the identifier \<open>id_num\<close> (source lines 757-790).
  The exception of line 772 and the assertion on the threshold are failing branches.\<close>

definition eval_group ::
  "float64 \<Rightarrow> (string \<rightharpoonup> float64) \<Rightarrow> nat \<Rightarrow> 'a fbl5n_row_scheme list
     \<Rightarrow> error + 'a fbl5n_row_scheme list" where
  "eval_group base_thresh tax_threshs id_num data =
     (let id_recs = id_recs_of data id_num;
          id_taxes = unique (map Tax id_recs)
      in case tax_code_of id_taxes of
           Inl e \<Rightarrow> Inl e
         | Inr tax_code \<Rightarrow>
            (let data1 = (if tax_compatible id_taxes
                          then loc_set (\<lambda>r. ID r = Some id_num) (\<lambda>r. r\<lparr>Tax_Match := True\<rparr>) data
                          else data);
                 thresh = resolve_thresh base_thresh tax_threshs tax_code
             in if f_eq thresh INVALID_THRESHOLD
                then Inl (AssertionError ''Invalid threshold value!'')
                else
                  (let dc_amnts = map DC_Amount id_recs
                   in if amounts_match dc_amnts thresh
                      then Inr (loc_set (\<lambda>r. ID r = Some id_num)
                                  (\<lambda>r. r\<lparr>Amount_Match := True\<rparr>) data1)
                      else Inr data1)))"

fun eval_loop ::
  "float64 \<Rightarrow> (string \<rightharpoonup> float64) \<Rightarrow> nat list \<Rightarrow> 'a fbl5n_row_scheme list
     \<Rightarrow> error + 'a fbl5n_row_scheme list" where
  "eval_loop base_thresh tax_threshs [] data = Inr data"
| "eval_loop base_thresh tax_threshs (id_num # ids) data =
     (case eval_group base_thresh tax_threshs id_num data of
        Inl e \<Rightarrow> Inl e
      | Inr data' \<Rightarrow> eval_loop base_thresh tax_threshs ids data')"

text \<open>The adjustment of the base threshold (source lines 732-733):
  \<open>if base_thresh == 0: base_thresh += 0.01\<close>.\<close>

definition adjust_base :: "float64 \<Rightarrow> float64" where
  "adjust_base base_thresh =
     (if f_eq base_thresh (Val 0) then f_add base_thresh float_0_01 else base_thresh)"

text \<open>\<open>evaluate_items(consolid, base_threshold = ..., tax_thresholds = ...)\<close>. The
  argument is the content of the copy \<open>data = consolid.copy()\<close>; every write of the
  function goes to that copy. \<open>id_values[duplicated]\<close> keeps the entries the
  \<open>duplicated\<close> series marks.\<close>

definition evaluate_items ::
  "'a fbl5n_row_scheme list \<Rightarrow> float64 \<Rightarrow> (string \<rightharpoonup> float64)
     \<Rightarrow> error + 'a fbl5n_row_scheme list" where
  "evaluate_items consolid base_threshold tax_thresholds =
     (let base_thresh = adjust_base base_threshold;
          data = consolid;
          ivs = id_values data;
          dup = duplicated ivs
      in if \<not> list_ex snd dup then Inr data
         else
           (let data = loc_set_labels (map fst (filter snd dup))
                         (\<lambda>r. r\<lparr>ID_Match := True\<rparr>) data;
                ids = unique (map (snd \<circ> fst) (filter (snd \<circ> snd) (zip ivs dup)))
            in eval_loop base_thresh tax_thresholds ids data))"

text \<open>The duplicated identifiers in the order the loop visits them.\<close>

definition dup_ids :: "'a fbl5n_row_scheme list \<Rightarrow> nat list" where
  "dup_ids data =
     unique (map (snd \<circ> fst)
       (filter (snd \<circ> snd) (zip (id_values data) (duplicated (id_values data)))))"

text \<open>What one pass decides for the identifier \<open>id_num\<close>, as expressions of the
  loop body: the distinct tax codes, whether \<open>Tax_Match\<close> is written, the resolved
  threshold (or the exception of line 772), whether \<open>Amount_Match\<close> is written, the
  exception the pass ends with if any, and the effect on a row of that identifier.\<close>

definition group_taxes :: "'a fbl5n_row_scheme list \<Rightarrow> nat \<Rightarrow> string option list" where
  "group_taxes data id_num = unique (map Tax (id_recs_of data id_num))"

definition group_tax_ok :: "'a fbl5n_row_scheme list \<Rightarrow> nat \<Rightarrow> bool" where
  "group_tax_ok data id_num = tax_compatible (group_taxes data id_num)"

definition group_thresh ::
  "float64 \<Rightarrow> (string \<rightharpoonup> float64) \<Rightarrow> 'a fbl5n_row_scheme list \<Rightarrow> nat
     \<Rightarrow> error + float64" where
  "group_thresh base_thresh tax_threshs data id_num =
     (case tax_code_of (group_taxes data id_num) of
        Inl e \<Rightarrow> Inl e
      | Inr tax_code \<Rightarrow> Inr (resolve_thresh base_thresh tax_threshs tax_code))"

definition group_amount_ok ::
  "float64 \<Rightarrow> (string \<rightharpoonup> float64) \<Rightarrow> 'a fbl5n_row_scheme list \<Rightarrow> nat \<Rightarrow> bool" where
  "group_amount_ok base_thresh tax_threshs data id_num =
     (case group_thresh base_thresh tax_threshs data id_num of
        Inl e \<Rightarrow> False
      | Inr thresh \<Rightarrow> amounts_match (map DC_Amount (id_recs_of data id_num)) thresh)"

definition group_err ::
  "float64 \<Rightarrow> (string \<rightharpoonup> float64) \<Rightarrow> 'a fbl5n_row_scheme list \<Rightarrow> nat
     \<Rightarrow> error option" where
  "group_err base_thresh tax_threshs data id_num =
     (case group_thresh base_thresh tax_threshs data id_num of
        Inl e \<Rightarrow> Some e
      | Inr thresh \<Rightarrow>
          if f_eq thresh INVALID_THRESHOLD
          then Some (AssertionError ''Invalid threshold value!'') else None)"

definition group_upd ::
  "float64 \<Rightarrow> (string \<rightharpoonup> float64) \<Rightarrow> 'a fbl5n_row_scheme list \<Rightarrow> nat
     \<Rightarrow> 'a fbl5n_row_scheme \<Rightarrow> 'a fbl5n_row_scheme" where
  "group_upd base_thresh tax_threshs data id_num r =
     r\<lparr>Tax_Match := Tax_Match r \<or> group_tax_ok data id_num,
       Amount_Match := Amount_Match r \<or> group_amount_ok base_thresh tax_threshs data id_num\<rparr>"

definition get_matched_items :: "'a fbl5n_row_scheme list \<Rightarrow> 'a fbl5n_row_scheme list" where
  "get_matched_items data =
     filter (\<lambda>r. ID_Match r = True \<and> Tax_Match r = True \<and> Amount_Match r = True) data"

text \<open>The effect of the whole loop, and of the whole function, on one row: these two
  functions are the closed form the loop is proved equal to below.\<close>

definition loop_upd ::
  "float64 \<Rightarrow> (string \<rightharpoonup> float64) \<Rightarrow> 'a fbl5n_row_scheme list \<Rightarrow> nat set
     \<Rightarrow> 'a fbl5n_row_scheme \<Rightarrow> 'a fbl5n_row_scheme" where
  "loop_upd b t d S r =
     (case ID r of None \<Rightarrow> r
      | Some v \<Rightarrow> if v \<in> S then group_upd b t d v r else r)"

definition eval_row ::
  "float64 \<Rightarrow> (string \<rightharpoonup> float64) \<Rightarrow> 'a fbl5n_row_scheme list
     \<Rightarrow> 'a fbl5n_row_scheme \<Rightarrow> 'a fbl5n_row_scheme" where
  "eval_row b t d r =
     (case ID r of None \<Rightarrow> r
      | Some v \<Rightarrow> if 1 < length (id_recs_of d v)
                  then group_upd b t d v (r\<lparr>ID_Match := True\<rparr>) else r)"

section \<open>Frames as objects: the copy made by \<open>evaluate_items\<close>\<close>

text \<open>
  Python passes a DataFrame by reference. To state that a caller's frame is not written
  to, the frames alive at a call are kept in an object table and a reference is an index
  into it. \<open>DataFrame.copy()\<close> allocates a new object with the same content (a deep copy
  of the data, the pandas default). In \<open>evaluate_items\<close> the parameter \<open>consolid\<close> is read
  once, by \<open>data = consolid.copy()\<close> (source line 741); every later read and every write
  (\<open>data.loc[...] = True\<close>, source lines 752, 766, 775, 790) goes through \<open>data\<close>, and
  \<open>data\<close> is what both \<open>return\<close> statements return. A failed assertion leaves the
  function by an exception; the half-written copy is then unreachable, and the model
  returns the error only.
\<close>

type_synonym 'r objects = "'r list list"

definition df_copy :: "'r objects \<Rightarrow> nat \<Rightarrow> 'r objects \<times> nat" where
  "df_copy objs ref = (objs @ [objs ! ref], length objs)"

definition evaluate_items_obj ::
  "'a fbl5n_row_scheme objects \<Rightarrow> nat \<Rightarrow> float64 \<Rightarrow> (string \<rightharpoonup> float64)
     \<Rightarrow> error + ('a fbl5n_row_scheme objects \<times> nat)" where
  "evaluate_items_obj objs consolid base_threshold tax_thresholds =
     (let (objs1, data) = df_copy objs consolid
      in case evaluate_items (objs1 ! data) base_threshold tax_thresholds of
           Inl e \<Rightarrow> Inl e
         | Inr result \<Rightarrow> Inr (objs1[data := result], data))"


section \<open>Example ledger items\<close>

text \<open>An open item of the case 123 with the given document number, amount and tax
  code, as the parser leaves it.\<close>

definition item :: "nat \<Rightarrow> float64 \<Rightarrow> string option \<Rightarrow> fbl5n_row" where
  "item n amount tax = parsed_row n ''DZ'' amount ''EUR'' tax ''D 123'' 10 10 (Some 123)"

text \<open>The float64 values nearest to the decimal amounts 0.13, -1.13, 0.06, -0.05 and
  0.04.\<close>

definition float_0_13 :: float64 where
  "float_0_13 = Val (1170935903116329 / 9007199254740992)"

definition float_neg_1_13 :: float64 where
  "float_neg_1_13 = Val (- (1272266894732165 / 1125899906842624))"

definition float_0_06 :: float64 where
  "float_0_06 = Val (1080863910568919 / 18014398509481984)"

definition float_neg_0_05 :: float64 where
  "float_neg_0_05 = Val (- (3602879701896397 / 72057594037927936))"

definition float_0_04 :: float64 where
  "float_0_04 = Val (5764607523034235 / 144115188075855872)"

section \<open>Root cause of a clearing record (\<open>_get_new_root_cause\<close>)\<close>

text \<open>
  \<open>_get_new_root_cause(prev_rt_cause, doc_types)\<close>, source lines 840-853. The local
  \<open>new_root_cause\<close> is bound in three branches of the \<open>if\<close>/\<open>elif\<close> chain and there is
  no \<open>else\<close>: when no branch is taken, \<open>return new_root_cause\<close> raises
  \<open>UnboundLocalError\<close>. \<open>doc_types\<close> is the array of the distinct document types of the
  group; \<open>"DG" in doc_types\<close> is membership.
\<close>

definition get_new_root_cause :: "string \<Rightarrow> string list \<Rightarrow> error + string" where
  "get_new_root_cause prev_rt_cause doc_types =
     (if prev_rt_cause \<in> set [''L06'', ''L01''] then Inr prev_rt_cause
      else if ''DG'' \<in> set doc_types then Inr ''L06''
      else if ''DZ'' \<in> set doc_types \<or> ''DA'' \<in> set doc_types then Inr ''L01''
      else Inl UnboundLocalError)"

text \<open>The call site in \<open>create_clearing_input\<close>, source lines 1030-1032: the call and
  the assertion on its result.\<close>

definition checked_root_cause :: "string \<Rightarrow> string list \<Rightarrow> error + string" where
  "checked_root_cause rt_cause doc_types =
     (case get_new_root_cause rt_cause doc_types of
        Inl e \<Rightarrow> Inl e
      | Inr new_root_cause \<Rightarrow>
          if new_root_cause \<in> set [''L01'', ''L06''] then Inr new_root_cause
          else Inl (AssertionError ''The new root cause is not applicable for DMS closing!''))"


section \<open>Virtual identifiers (\<open>_virtualize\<close> and the swap in \<open>consolidate\<close>)\<close>

text \<open>
  \<open>_get_cases(source, case_rx)\<close> finds the case markers of a text with the regular
  expression \<open>rx_patt\<close>, built from the configured \<open>case_rx\<close>. The regular expression
  engine and the configured pattern are outside the model: what \<open>_get_cases\<close> finds in a
  text is a parameter. The function has two branches. For a Series it matches with the
  flag \<open>re.I\<close> and yields the list of matches of every text (source line 221); only the
  number of matches is used. For a single string it matches without the flag and yields
  the case numbers as integers (source lines 223-224). The two parameters are
  \<open>n_cases_series\<close> and \<open>cases_str\<close>; nothing is assumed that relates them.
\<close>


text \<open>The inner loop, source lines 582-583: every row whose \<open>ID\<close> is one of the case
  numbers found in the text gets the virtual identifier.\<close>

definition assign_cases ::
  "nat \<Rightarrow> nat list \<Rightarrow> 'a fbl5n_row_scheme list \<Rightarrow> 'a fbl5n_row_scheme list" where
  "assign_cases virt_id case_IDs virtual =
     fold (\<lambda>case_id v. loc_set (\<lambda>r. ID r = Some case_id) (\<lambda>r. r\<lparr>Virtual_ID := Some virt_id\<rparr>) v)
          case_IDs virtual"






text \<open>A record is touched by the multi-identifier item at row \<open>idx\<close> when it is that
  item or its identifier is one of the case numbers found in the item's text. The value
  the loop leaves in \<open>Virtual_ID\<close> of row \<open>j\<close> is computed by \<open>final_vid\<close>: the last
  touching item wins.\<close>

definition touches ::
  "(string \<Rightarrow> nat list) \<Rightarrow> 'a fbl5n_row_scheme list \<Rightarrow> nat \<Rightarrow> nat \<Rightarrow> bool" where
  "touches cases_str data idx j =
     (j = idx \<or> list_ex (\<lambda>c. ID (data ! j) = Some c) (cases_str (Text (data ! idx))))"

fun final_vid ::
  "(string \<Rightarrow> nat list) \<Rightarrow> 'a fbl5n_row_scheme list \<Rightarrow> nat \<Rightarrow> nat list \<Rightarrow> nat
     \<Rightarrow> nat option \<Rightarrow> nat option" where
  "final_vid cases_str data j [] next_id v = v"
| "final_vid cases_str data j (idx # rest) next_id v =
     final_vid cases_str data j rest (next_id + 1)
       (if touches cases_str data idx j then Some next_id else v)"





section \<open>The checkpoint store (engine/biaRecovery.py) and the accumulator\<close>

text \<open>
  The orchestrator keeps three pieces of state: the checkpoints of every entity in memory
  (\<open>_ent_states\<close>) and in the recovery file, which \<open>save_entity_state\<close> rewrites as a
  whole after every change, and the accumulator \<open>_accum\<close> of the processor module. The
  files it dumps intermediate data to are part of the state as well, since a resumed run
  reads them back. The calls to the collaborators outside the core (the GUI automation,
  the parser of the exported text) are recorded in \<open>trace\<close>, in the order they are made;
  what a collaborator answers is a parameter of the stage that calls it. Writing a file
  is taken to succeed.
\<close>

type_synonym entity = string

type_synonym ent_states_t = "entity \<rightharpoonup> (string \<rightharpoonup> bool)"

record dms_row =
  dms_Debitor :: nat
  dms_Case_ID :: nat
  dms_Notification :: nat
  dms_Status :: nat
  dms_Status_AC :: string
  dms_Root_Cause :: string
  dms_Category :: string

record cust_row =
  Account :: nat
  cust_Customer_Name :: "string option"
  cust_Channel :: "string option"

text \<open>A row of the consolidated frame: the ledger columns, the columns of the case
  record (null where the left merge found no case) and the columns of the customer
  lookup (null where there is no lookup or no customer).\<close>

record consolid_row = fbl5n_row +
  Debitor :: "nat option"
  Case_ID :: "nat option"
  Notification :: "nat option"
  Status :: "nat option"
  Status_AC :: "string option"
  Root_Cause :: "string option"
  Category :: "string option"
  Customer_Name :: "string option"
  Channel :: "string option"

text \<open>One clearing record of a currency (\<open>create_clearing_input\<close>, source lines
  1065-1081; the fields \<open>clear_open_items\<close> reads or writes) and the entry of a currency
  (source lines 1087-1092).\<close>

record clearing_record =
  Skipped :: bool
  Message :: string
  Case_IDs :: "nat list"
  F30_Clearing_Status_rec :: "string option"

record currency_params =
  records :: "(nat \<times> clearing_record) list"
  F30_Clearing_Status :: string
  Posting_Number :: "nat option"
  Cleared :: bool
  Matched_Count :: nat

text \<open>What the accumulator and the dump files hold.\<close>

datatype data =
    Ledger "fbl5n_row list"
  | Cases "dms_row list"
  | Consolidated "consolid_row list"
  | Clearing "(string \<times> currency_params) list"

datatype event =
    Ev_fbl5n_export entity
  | Ev_preprocess_fbl5n entity
  | Ev_consolidate entity
  | Ev_f30_load entity string
  | Ev_f30_select entity string
  | Ev_f30_post entity string

record world =
  ent_states :: ent_states_t
  rec_file :: ent_states_t
  accum :: "string \<Rightarrow> entity \<rightharpoonup> data option"
  dumps :: "entity \<times> string \<rightharpoonup> data"
  trace :: "event list"

text \<open>\<open>reset_entity_states\<close>, source lines 125-145: every checkpoint false.\<close>

definition default_states :: "string \<rightharpoonup> bool" where
  "default_states =
     [''fbl5n_data_exported'' \<mapsto> False, ''fbl5n_data_converted'' \<mapsto> False,
      ''fbl5n_data_no_case'' \<mapsto> False, ''dms_data_exported'' \<mapsto> False,
      ''dms_data_converted'' \<mapsto> False, ''f30_input_generated'' \<mapsto> False,
      ''f30_items_cleared'' \<mapsto> False, ''dms_cases_processed'' \<mapsto> False,
      ''data_consolidated'' \<mapsto> False, ''data_analyzed'' \<mapsto> False,
      ''qm_notifications_processed'' \<mapsto> False]"

definition reset_entity_states :: "entity list \<Rightarrow> ent_states_t" where
  "reset_entity_states entits = (\<lambda>ent. if ent \<in> set entits then Some default_states else None)"

text \<open>\<open>initialize\<close>, source lines 51-65. A missing recovery file is created empty, so
  it reads as the empty document. A non-empty document is the state of a run that did
  not finish; it is loaded as it is and the function returns True.\<close>

definition initialize :: "entity list \<Rightarrow> world \<Rightarrow> world \<times> bool" where
  "initialize entits w =
     (if dom (rec_file w) \<noteq> {} then (w\<lparr>ent_states := rec_file w\<rparr>, True)
      else (w\<lparr>ent_states := reset_entity_states entits,
              rec_file := reset_entity_states entits\<rparr>, False))"

text \<open>\<open>get_entity_state\<close>, source line 194, and \<open>save_entity_state\<close>, source lines
  169-172. A missing key of a dictionary raises \<open>KeyError\<close>.\<close>

definition get_entity_state :: "world \<Rightarrow> entity \<Rightarrow> string \<Rightarrow> error + bool" where
  "get_entity_state w ent state =
     (case ent_states w ent of
        None \<Rightarrow> Inl (KeyError ent)
      | Some m \<Rightarrow> (case m state of None \<Rightarrow> Inl (KeyError state) | Some b \<Rightarrow> Inr b))"

definition save_entity_state :: "world \<Rightarrow> entity \<Rightarrow> string \<Rightarrow> bool \<Rightarrow> error + world" where
  "save_entity_state w ent key val =
     (case ent_states w ent of
        None \<Rightarrow> Inl (KeyError ent)
      | Some m \<Rightarrow>
          (let new_states = (ent_states w)(ent \<mapsto> m(key \<mapsto> val))
           in Inr (w\<lparr>ent_states := new_states, rec_file := new_states\<rparr>)))"

text \<open>\<open>store_to_accum\<close>, source lines 77-80, and \<open>get_from_accum\<close>, source line 102. The
  stored value may be Python's \<open>None\<close>, so an entry is a \<open>data option\<close>; the entity
  having no entry is the outer \<open>None\<close> of the map.\<close>

definition store_to_accum ::
  "world \<Rightarrow> entity \<Rightarrow> string \<Rightarrow> data option \<Rightarrow> bool \<Rightarrow> error + world" where
  "store_to_accum w ent key dat force =
     (if accum w key ent \<noteq> None \<and> \<not> force
      then Inl (AssertionError ''Cannot modify data already stored in the accumulator!'')
      else Inr (w\<lparr>accum := (accum w)(key := (accum w key)(ent \<mapsto> dat))\<rparr>))"

definition get_from_accum :: "world \<Rightarrow> entity \<Rightarrow> string \<Rightarrow> error + data option" where
  "get_from_accum w ent key =
     (case accum w key ent of None \<Rightarrow> Inl (KeyError ent) | Some d \<Rightarrow> Inr d)"

text \<open>\<open>store_to_binary\<close>, \<open>store_to_serial\<close> and \<open>read_binary\<close>, \<open>read_serial\<close>: one dump
  file per entity and kind of data. Reading a file that does not exist raises.\<close>

definition store_dump :: "world \<Rightarrow> entity \<Rightarrow> string \<Rightarrow> data \<Rightarrow> world" where
  "store_dump w ent kind dat = w\<lparr>dumps := (dumps w)((ent, kind) \<mapsto> dat)\<rparr>"

definition read_dump :: "world \<Rightarrow> entity \<Rightarrow> string \<Rightarrow> error + data" where
  "read_dump w ent kind =
     (case dumps w (ent, kind) of
        None \<Rightarrow> Inl (OtherError ''FileNotFoundError'')
      | Some d \<Rightarrow> Inr d)"

definition log_event :: "world \<Rightarrow> event \<Rightarrow> world" where
  "log_event w ev = w\<lparr>trace := trace w @ [ev]\<rparr>"


section \<open>The ledger export and conversion stages (engine/biaCore.py)\<close>

text \<open>What \<open>fbl5n.export\<close> does when called: it returns, or raises one of the exceptions
  \<open>export_fbl5n_data\<close> handles, or raises another exception.\<close>

datatype export_result =
    Exp_done
  | Exp_no_data
  | Exp_abap_error
  | Exp_worklist_not_found
  | Exp_connection_lost
  | Exp_raises error

text \<open>
  \<open>export_fbl5n_data\<close>, source lines 440-477; the loop with its variable \<open>success\<close>.
  \<open>group_type\<close> is the entry \<open>type\<close> of the entity in the rules; a type that is neither
  \<open>worklist\<close> nor \<open>company_code\<close> leaves the local \<open>worklist\<close> unbound, and the call of
  the export that reads it raises (\<open>worklist_of\<close>). After
  \<open>NoDataFoundWarning\<close> the loop continues with the next entity without saving the
  checkpoint. After \<open>AbapRuntimeError\<close> or \<open>WorklistNotFoundError\<close> the exception is
  logged and control falls through to \<open>save_entity_state\<close>. After \<open>ConnectionLostError\<close>
  the export is called again without the session argument (source line 472), so the
  export path is taken for the session and the company code for the file path: the
  folder of that path does not exist and the call raises \<open>FolderNotFoundError\<close>.
\<close>

definition worklist_of :: "string \<Rightarrow> entity \<Rightarrow> error + entity option" where
  "worklist_of group_type ent =
     (if group_type = ''worklist'' then Inr (Some ent)
      else if group_type = ''company_code'' then Inr None
      else Inl UnboundLocalError)"

fun export_fbl5n_loop ::
  "(entity \<Rightarrow> string) \<Rightarrow> (entity \<Rightarrow> export_result) \<Rightarrow> (entity \<times> string) list \<Rightarrow> bool
     \<Rightarrow> world \<Rightarrow> error + (world \<times> bool)" where
  "export_fbl5n_loop group_type fbl5n_export [] success w = Inr (w, success)"
| "export_fbl5n_loop group_type fbl5n_export ((ent, cocd) # rest) success w =
     (case get_entity_state w ent ''fbl5n_data_exported'' of
        Inl e \<Rightarrow> Inl e
      | Inr True \<Rightarrow> export_fbl5n_loop group_type fbl5n_export rest True w
      | Inr False \<Rightarrow>
          (case worklist_of (group_type ent) ent of
             Inl e \<Rightarrow> Inl e
           | Inr worklist \<Rightarrow>
              (case fbl5n_export ent of
                 Exp_no_data \<Rightarrow>
                   export_fbl5n_loop group_type fbl5n_export rest success
                     (log_event w (Ev_fbl5n_export ent))
               | Exp_connection_lost \<Rightarrow> Inl (OtherError ''FolderNotFoundError'')
               | Exp_raises e \<Rightarrow> Inl e
               | _ \<Rightarrow>
                   (case save_entity_state (log_event w (Ev_fbl5n_export ent)) ent
                           ''fbl5n_data_exported'' True of
                      Inl e \<Rightarrow> Inl e
                    | Inr w2 \<Rightarrow> export_fbl5n_loop group_type fbl5n_export rest True w2))))"

definition export_fbl5n_data ::
  "(entity \<Rightarrow> string) \<Rightarrow> (entity \<Rightarrow> export_result) \<Rightarrow> (entity \<times> string) list
     \<Rightarrow> world \<Rightarrow> error + (world \<times> bool)" where
  "export_fbl5n_data group_type fbl5n_export entits w =
     export_fbl5n_loop group_type fbl5n_export entits False w"

text \<open>\<open>_exist_cases\<close>, source lines 65-70.\<close>

definition exist_cases :: "fbl5n_row list \<Rightarrow> bool" where
  "exist_cases fbl5n_data = list_ex (\<lambda>r. ID r \<noteq> None) fbl5n_data"

text \<open>
  \<open>load_fbl5n_data\<close>, source lines 502-540. \<open>preprocess_fbl5n_data\<close> reads and parses the
  exported text; what it returns for the export file of an entity (a frame, or an
  exception) is the parameter \<open>preprocess\<close>. It never returns \<open>None\<close>, and a dump file
  holds what was stored, so \<open>conv\<close> is not \<open>None\<close> on either path; a dump of another
  kind of data is a type error at \<open>_exist_cases\<close>.
\<close>

fun load_fbl5n_loop ::
  "(entity \<Rightarrow> error + fbl5n_row list) \<Rightarrow> (entity \<times> string) list \<Rightarrow> bool
     \<Rightarrow> world \<Rightarrow> error + (world \<times> bool)" where
  "load_fbl5n_loop preprocess [] success w = Inr (w, success)"
| "load_fbl5n_loop preprocess ((ent, cocd) # rest) success w =
     (case get_entity_state w ent ''fbl5n_data_exported'' of
        Inl e \<Rightarrow> Inl e
      | Inr False \<Rightarrow>
          (case store_to_accum w ent ''fbl5n_data'' None False of
             Inl e \<Rightarrow> Inl e
           | Inr w1 \<Rightarrow> load_fbl5n_loop preprocess rest success w1)
      | Inr True \<Rightarrow>
          (case get_entity_state w ent ''fbl5n_data_converted'' of
             Inl e \<Rightarrow> Inl e
           | Inr converted \<Rightarrow>
              (case (if converted
                     then (case read_dump w ent ''fbl5n_data'' of
                             Inl e \<Rightarrow> Inl e
                           | Inr (Ledger conv) \<Rightarrow> Inr (w, conv)
                           | Inr _ \<Rightarrow> Inl TypeError)
                     else (case preprocess ent of
                             Inl e \<Rightarrow> Inl e
                           | Inr conv \<Rightarrow> Inr (log_event w (Ev_preprocess_fbl5n ent), conv))) of
                 Inl e \<Rightarrow> Inl e
               | Inr (w1, conv) \<Rightarrow>
                  (case save_entity_state (store_dump w1 ent ''fbl5n_data'' (Ledger conv))
                          ent ''fbl5n_data_converted'' True of
                     Inl e \<Rightarrow> Inl e
                   | Inr w2 \<Rightarrow>
                      (case (if \<not> exist_cases conv
                             then save_entity_state w2 ent ''fbl5n_data_no_case'' True
                             else Inr w2) of
                         Inl e \<Rightarrow> Inl e
                       | Inr w3 \<Rightarrow>
                          (case store_to_accum w3 ent ''fbl5n_data'' (Some (Ledger conv)) True of
                             Inl e \<Rightarrow> Inl e
                           | Inr w4 \<Rightarrow> load_fbl5n_loop preprocess rest True w4))))))"

definition load_fbl5n_data ::
  "(entity \<Rightarrow> error + fbl5n_row list) \<Rightarrow> (entity \<times> string) list
     \<Rightarrow> world \<Rightarrow> error + (world \<times> bool)" where
  "load_fbl5n_data preprocess entits w = load_fbl5n_loop preprocess entits False w"


section \<open>The start of a run (app.py, \<open>main\<close>)\<close>

text \<open>What a restarted process would read from the recovery file.\<close>

definition persisted_state :: "world \<Rightarrow> entity \<Rightarrow> string \<Rightarrow> error + bool" where
  "persisted_state w ent state =
     (case rec_file w ent of
        None \<Rightarrow> Inl (KeyError ent)
      | Some m \<Rightarrow> (case m state of None \<Rightarrow> Inl (KeyError state) | Some b \<Rightarrow> Inr b))"

text \<open>\<open>initialize_recovery\<close>, engine/biaCore.py lines 387-394: the dump files are deleted
  unless the previous run failed.\<close>

definition clean_dump :: "world \<Rightarrow> world" where
  "clean_dump w = w\<lparr>dumps := Map.empty\<rparr>"

definition initialize_recovery :: "entity list \<Rightarrow> world \<Rightarrow> world" where
  "initialize_recovery entits w =
     (let (w1, is_prev_failure) = initialize entits w
      in if \<not> is_prev_failure then clean_dump w1 else w1)"

text \<open>How a run ends before its last stage: \<open>main\<close> returns an exit code, or an exception
  that no \<open>try\<close> statement of \<open>main\<close> encloses leaves the program.\<close>

datatype run_result = Exit nat | Uncaught error

text \<open>
  \<open>main\<close>, app.py lines 66-90, for a non-empty set of entities: the recovery is
  initialised, the ledger export runs inside \<open>try\<close> (any exception ends the run with
  exit code 4; its return value is not used), and the conversion runs outside any
  \<open>try\<close> (the value False ends the run with exit code 5).
\<close>

definition main_ledger_stages ::
  "(entity \<Rightarrow> string) \<Rightarrow> (entity \<Rightarrow> export_result) \<Rightarrow> (entity \<Rightarrow> error + fbl5n_row list)
     \<Rightarrow> (entity \<times> string) list \<Rightarrow> world \<Rightarrow> run_result + world" where
  "main_ledger_stages group_type fbl5n_export preprocess entits w =
     (let w1 = initialize_recovery (map fst entits) w
      in case export_fbl5n_data group_type fbl5n_export entits w1 of
           Inl e \<Rightarrow> Inl (Exit 4)
         | Inr (w2, exported) \<Rightarrow>
             (case load_fbl5n_data preprocess entits w2 of
                Inl e \<Rightarrow> Inl (Uncaught e)
              | Inr (w3, converted) \<Rightarrow> if \<not> converted then Inl (Exit 5) else Inr w3))"


section \<open>What a stage may do: the gating conditions the claims state\<close>

text \<open>The calls a stage made: the part of the trace added between two states.\<close>

definition new_events :: "world \<Rightarrow> world \<Rightarrow> event list" where
  "new_events w w' = drop (length (trace w)) (trace w')"

text \<open>
  \<open>gated key work w w'\<close>: between \<open>w\<close> and \<open>w'\<close> the trace only grew; the work \<open>work ent\<close>
  was done only for entities whose checkpoint \<open>key\<close> was false in \<open>w\<close>; a checkpoint that
  was true stayed true; no checkpoint other than those in \<open>keys\<close> changed; and if the
  recovery file agreed with the checkpoints in memory before, it does so after.
\<close>

definition gated :: "string \<Rightarrow> (entity \<Rightarrow> event) \<Rightarrow> string set \<Rightarrow> world \<Rightarrow> world \<Rightarrow> bool" where
  "gated key work keys w w' =
     (trace w' = trace w @ new_events w w'
      \<and> (\<forall>ent. work ent \<in> set (new_events w w')
             \<longrightarrow> get_entity_state w ent key = Inr False)
      \<and> (\<forall>ent k. get_entity_state w ent k = Inr True \<longrightarrow> get_entity_state w' ent k = Inr True)
      \<and> (\<forall>ent k. k \<notin> keys \<longrightarrow> get_entity_state w' ent k = get_entity_state w ent k)
      \<and> (rec_file w = ent_states w \<longrightarrow> rec_file w' = ent_states w'))"


section \<open>Closed form of \<open>evaluate_items\<close>\<close>

lemma group_upd_simps:
  "group_tax_ok d v \<Longrightarrow> group_amount_ok b t d v \<Longrightarrow>
     group_upd b t d v r = r\<lparr>Tax_Match := True, Amount_Match := True\<rparr>"
  "group_tax_ok d v \<Longrightarrow> \<not> group_amount_ok b t d v \<Longrightarrow>
     group_upd b t d v r = r\<lparr>Tax_Match := True\<rparr>"
  "\<not> group_tax_ok d v \<Longrightarrow> group_amount_ok b t d v \<Longrightarrow>
     group_upd b t d v r = r\<lparr>Amount_Match := True\<rparr>"
  "\<not> group_tax_ok d v \<Longrightarrow> \<not> group_amount_ok b t d v \<Longrightarrow>
     group_upd b t d v r = r"
  by (simp_all add: group_upd_def)

lemma eval_group_char:
  "eval_group b t v d =
     (case group_err b t d v of
        Some e \<Rightarrow> Inl e
      | None \<Rightarrow> Inr (map (\<lambda>r. if ID r = Some v then group_upd b t d v r else r) d))"
proof (cases "tax_code_of (unique (map Tax (id_recs_of d v)))")
  case (Inl e)
  then show ?thesis
    by (simp add: eval_group_def group_err_def group_thresh_def group_taxes_def)
next
  case (Inr c)
  define th where "th = resolve_thresh b t c"
  have gt: "group_thresh b t d v = Inr th"
    by (simp add: group_thresh_def group_taxes_def Inr th_def)
  show ?thesis
  proof (cases "f_eq th INVALID_THRESHOLD")
    case True
    then show ?thesis
      by (simp add: eval_group_def Inr th_def [symmetric] group_err_def gt)
  next
    case False
    have tx: "tax_compatible (unique (map Tax (id_recs_of d v))) = group_tax_ok d v"
      by (simp add: group_tax_ok_def group_taxes_def)
    have am: "amounts_match (map DC_Amount (id_recs_of d v)) th = group_amount_ok b t d v"
      by (simp add: group_amount_ok_def gt)
    have ge: "group_err b t d v = None"
      using False by (simp add: group_err_def gt)
    have eg: "eval_group b t v d =
        (if group_amount_ok b t d v
         then Inr (loc_set (\<lambda>r. ID r = Some v) (\<lambda>r. r\<lparr>Amount_Match := True\<rparr>)
                (if group_tax_ok d v
                 then loc_set (\<lambda>r. ID r = Some v) (\<lambda>r. r\<lparr>Tax_Match := True\<rparr>) d else d))
         else Inr (if group_tax_ok d v
                 then loc_set (\<lambda>r. ID r = Some v) (\<lambda>r. r\<lparr>Tax_Match := True\<rparr>) d else d))"
      using False by (simp add: eval_group_def Let_def Inr th_def [symmetric] tx am)
    show ?thesis
      unfolding eg ge option.case
      by (cases "group_tax_ok d v"; cases "group_amount_ok b t d v")
         (simp_all add: group_upd_simps loc_set_def map_idI cong: map_cong)
  qed
qed

lemma id_recs_of_map_Tax:
  assumes "\<And>r. ID (f r) = ID r" "\<And>r. Tax (f r) = Tax r"
  shows "map Tax (id_recs_of (map f d) w) = map Tax (id_recs_of d w)"
  using assms by (induction d) (auto simp: id_recs_of_def)

lemma id_recs_of_map_DC:
  assumes "\<And>r. ID (f r) = ID r" "\<And>r. DC_Amount (f r) = DC_Amount r"
  shows "map DC_Amount (id_recs_of (map f d) w) = map DC_Amount (id_recs_of d w)"
  using assms by (induction d) (auto simp: id_recs_of_def)

lemma group_keys:
  assumes "\<And>r. ID (f r) = ID r" "\<And>r. Tax (f r) = Tax r"
    "\<And>r. DC_Amount (f r) = DC_Amount r"
  shows "group_tax_ok (map f d) w = group_tax_ok d w"
    and "group_thresh b t (map f d) w = group_thresh b t d w"
    and "group_amount_ok b t (map f d) w = group_amount_ok b t d w"
    and "group_err b t (map f d) w = group_err b t d w"
    and "group_taxes (map f d) w = group_taxes d w"
proof -
  have tx: "map Tax (id_recs_of (map f d) w) = map Tax (id_recs_of d w)"
    using assms(1,2) by (rule id_recs_of_map_Tax)
  have dc: "map DC_Amount (id_recs_of (map f d) w) = map DC_Amount (id_recs_of d w)"
    using assms(1,3) by (rule id_recs_of_map_DC)
  show gt: "group_taxes (map f d) w = group_taxes d w"
    by (simp only: group_taxes_def tx)
  show "group_tax_ok (map f d) w = group_tax_ok d w"
    by (simp only: group_tax_ok_def gt)
  show th: "group_thresh b t (map f d) w = group_thresh b t d w"
    by (simp only: group_thresh_def gt)
  show "group_amount_ok b t (map f d) w = group_amount_ok b t d w"
    by (simp only: group_amount_ok_def th dc)
  show "group_err b t (map f d) w = group_err b t d w"
    by (simp only: group_err_def th)
qed

lemma group_upd_keys [simp]:
  "ID (group_upd b t d v r) = ID r" "Tax (group_upd b t d v r) = Tax r"
  "DC_Amount (group_upd b t d v r) = DC_Amount r"
  by (simp_all add: group_upd_def)

lemma group_upd_idem:
  "group_upd b t d v (group_upd b t d v r) = group_upd b t d v r"
  by (simp add: group_upd_def)

lemma eval_loop_char:
  "eval_loop b t ids d =
     (case List.map_filter (group_err b t d) ids of
        [] \<Rightarrow> Inr (map (loop_upd b t d (set ids)) d)
      | e # es \<Rightarrow> Inl e)"
proof (induction ids arbitrary: d)
  case Nil
  show ?case by (simp add: loop_upd_def map_idI split: option.splits)
next
  case (Cons v ids)
  let ?g = "\<lambda>r. if ID r = Some v then group_upd b t d v r else r"
  have keys: "\<And>r. ID (?g r) = ID r" "\<And>r. Tax (?g r) = Tax r"
    "\<And>r. DC_Amount (?g r) = DC_Amount r"
    by simp_all
  have er: "\<And>w. group_err b t (map ?g d) w = group_err b t d w"
    by (rule group_keys(4)) simp_all
  have tx: "\<And>w. group_tax_ok (map ?g d) w = group_tax_ok d w"
    by (rule group_keys(1)) simp_all
  have am: "\<And>w. group_amount_ok b t (map ?g d) w = group_amount_ok b t d w"
    by (rule group_keys(3)) simp_all
  have upd: "\<And>w r. group_upd b t (map ?g d) w r = group_upd b t d w r"
    by (simp add: group_upd_def tx am)
  have comp: "\<And>r. loop_upd b t (map ?g d) (set ids) (?g r) = loop_upd b t d (set (v # ids)) r"
    by (auto simp: loop_upd_def upd group_upd_idem split: option.splits)
  have "group_err b t (map ?g d) = group_err b t d"
    by (rule ext) (rule er)
  then have mf: "List.map_filter (group_err b t (map ?g d)) ids
                   = List.map_filter (group_err b t d) ids"
    by (simp only:)
  show ?case
  proof (cases "group_err b t d v")
    case (Some e)
    then show ?thesis by (simp add: eval_group_char)
  next
    case None
    have rows: "map (loop_upd b t (map ?g d) (set ids)) (map ?g d)
                  = map (loop_upd b t d (set (v # ids))) d"
      using comp by simp
    have "eval_loop b t (v # ids) d = eval_loop b t ids (map ?g d)"
      using None by (simp add: eval_group_char)
    also have "\<dots> = (case List.map_filter (group_err b t d) ids of
                         [] \<Rightarrow> Inr (map (loop_upd b t d (set (v # ids))) d)
                       | e # es \<Rightarrow> Inl e)"
      by (simp only: Cons.IH mf rows)
    also have "\<dots> = (case List.map_filter (group_err b t d) (v # ids) of
                         [] \<Rightarrow> Inr (map (loop_upd b t d (set (v # ids))) d)
                       | e # es \<Rightarrow> Inl e)"
      using None by (simp only: map_filter_simps option.case)
    finally show ?thesis .
  qed
qed

lemma set_unique [simp]: "set (unique xs) = set xs"
  by (induction xs rule: unique.induct) auto



lemma id_values_snd_gen:
  "map snd (concat (map (\<lambda>(i, r). case ID r of None \<Rightarrow> [] | Some v \<Rightarrow> [(i, v)])
                        (enumerate n d)))
     = concat (map (\<lambda>r. case ID r of None \<Rightarrow> [] | Some v \<Rightarrow> [v]) d)"
  by (induction d arbitrary: n) (auto split: option.splits)

lemma count_id_values:
  "count_list (map snd (id_values d)) v = length (id_recs_of d v)"
proof -
  have "count_list (concat (map (\<lambda>r. case ID r of None \<Rightarrow> [] | Some v \<Rightarrow> [v]) d)) v
          = length (id_recs_of d v)"
    by (induction d) (auto simp: id_recs_of_def split: option.splits)
  then show ?thesis
    by (simp add: id_values_def id_values_snd_gen)
qed

lemma set_id_values:
  "set (id_values d) = {(i, v). i < length d \<and> ID (d ! i) = Some v}"
proof -
  have "(p \<in> set (id_values d)) = (fst p < length d \<and> ID (d ! fst p) = Some (snd p))" for p
  proof
    assume "p \<in> set (id_values d)"
    then obtain q where q: "q \<in> set (enumerate 0 d)"
      and p: "p \<in> set (case ID (snd q) of None \<Rightarrow> [] | Some v \<Rightarrow> [(fst q, v)])"
      by (auto simp: id_values_def case_prod_beta)
    from q have "fst q < length d" "d ! fst q = snd q"
      by (simp_all add: in_set_enumerate_eq)
    with p show "fst p < length d \<and> ID (d ! fst p) = Some (snd p)"
      by (auto split: option.splits)
  next
    assume a: "fst p < length d \<and> ID (d ! fst p) = Some (snd p)"
    then have "(fst p, d ! fst p) \<in> set (enumerate 0 d)"
      by (simp add: in_set_enumerate_eq)
    moreover have "p \<in> set (case ID (snd (fst p, d ! fst p)) of None \<Rightarrow> []
                      | Some v \<Rightarrow> [(fst (fst p, d ! fst p), v)])"
      using a by simp
    ultimately show "p \<in> set (id_values d)"
      unfolding id_values_def set_concat set_map case_prod_beta by blast
  qed
  then show ?thesis by auto
qed

lemma dup_any:
  "list_ex snd (duplicated (id_values d)) = (\<exists>v. 1 < length (id_recs_of d v))"
proof -
  have "list_ex snd (duplicated (id_values d))
          = (\<exists>p\<in>set (id_values d). 1 < length (id_recs_of d (snd p)))"
    by (simp add: duplicated_def list_ex_iff count_id_values case_prod_beta)
  also have "\<dots> = (\<exists>v. 1 < length (id_recs_of d v))"
  proof
    assume "\<exists>p\<in>set (id_values d). 1 < length (id_recs_of d (snd p))"
    then show "\<exists>v. 1 < length (id_recs_of d v)" by blast
  next
    assume "\<exists>v. 1 < length (id_recs_of d v)"
    then obtain v where v: "1 < length (id_recs_of d v)" ..
    then have "0 < count_list (map snd (id_values d)) v"
      unfolding count_id_values by linarith
    then have "v \<in> set (map snd (id_values d))"
      by (metis count_notin less_numeral_extra(3))
    with v show "\<exists>p\<in>set (id_values d). 1 < length (id_recs_of d (snd p))"
      by auto
  qed
  finally show ?thesis .
qed

lemma dup_ids_set:
  "set (map (snd \<circ> fst) (filter (snd \<circ> snd) (zip (id_values d) (duplicated (id_values d)))))
     = {v. 1 < length (id_recs_of d v)}"
proof -
  let ?ivs = "id_values d"
  have z: "zip ?ivs (duplicated ?ivs)
             = map (\<lambda>p. (p, (fst p, 1 < length (id_recs_of d (snd p))))) ?ivs"
    by (simp add: duplicated_def zip_map2 zip_same_conv_map count_id_values
        case_prod_beta)
  have "set (map (snd \<circ> fst) (filter (snd \<circ> snd) (zip ?ivs (duplicated ?ivs))))
          = {v. \<exists>i. (i, v) \<in> set ?ivs \<and> 1 < length (id_recs_of d v)}"
    unfolding z by (force simp: filter_map comp_def)
  also have "\<dots> = {v. 1 < length (id_recs_of d v)}"
  proof -
    have "\<exists>i. (i, v) \<in> set ?ivs" if "1 < length (id_recs_of d v)" for v
    proof -
      from that have "0 < count_list (map snd ?ivs) v"
        unfolding count_id_values by linarith
      then have "v \<in> set (map snd ?ivs)" by (metis count_notin less_numeral_extra(3))
      then show ?thesis by auto
    qed
    then show ?thesis by blast
  qed
  finally show ?thesis .
qed

lemma dup_labels_set:
  "set (map fst (filter snd (duplicated (id_values d))))
     = {i. i < length d \<and> (\<exists>v. ID (d ! i) = Some v \<and> 1 < length (id_recs_of d v))}"
proof -
  have "set (map fst (filter snd (duplicated (id_values d))))
          = {i. \<exists>v. (i, v) \<in> set (id_values d) \<and> 1 < length (id_recs_of d v)}"
    by (force simp: duplicated_def filter_map comp_def count_id_values case_prod_beta)
  then show ?thesis by (auto simp: set_id_values)
qed

lemma loc_set_labels_char:
  assumes "\<And>i. i < length d \<Longrightarrow> (i \<in> set labels) = P (d ! i)"
  shows "loc_set_labels labels upd d = map (\<lambda>r. if P r then upd r else r) d"
  using assms
  by (intro nth_equalityI) (simp_all add: loc_set_labels_def nth_enumerate_eq)



lemma set_dup_ids: "set (dup_ids d) = {v. 1 < length (id_recs_of d v)}"
  unfolding dup_ids_def by (simp only: set_unique dup_ids_set)

lemma map_filter_Nil_iff: "(List.map_filter f xs = []) = (\<forall>x\<in>set xs. f x = None)"
  by (induction xs) (auto split: option.splits)

lemma evaluate_items_char:
  "evaluate_items d base t =
     (case List.map_filter (group_err (adjust_base base) t d) (dup_ids d) of
        [] \<Rightarrow> Inr (map (eval_row (adjust_base base) t d) d)
      | e # es \<Rightarrow> Inl e)"
proof (cases "\<exists>v. 1 < length (id_recs_of d v)")
  case False
  then have "map (eval_row (adjust_base base) t d) d = d"
    by (intro map_idI) (simp add: eval_row_def split: option.splits)
  moreover from False have "set (dup_ids d) = {}"
    by (simp add: set_dup_ids)
  then have "dup_ids d = []" by simp
  ultimately show ?thesis using False
    by (simp add: evaluate_items_def Let_def dup_any)
next
  case True
  define b where "b = adjust_base base"
  define h :: "'a fbl5n_row_scheme \<Rightarrow> 'a fbl5n_row_scheme" where
    "h = (\<lambda>r. if \<exists>v. ID r = Some v \<and> 1 < length (id_recs_of d v)
               then r\<lparr>ID_Match := True\<rparr> else r)"
  define ids where "ids = dup_ids d"
  define d1 where "d1 = map h d"
  have hk: "\<And>r. ID (h r) = ID r" "\<And>r. Tax (h r) = Tax r"
    "\<And>r. DC_Amount (h r) = DC_Amount r"
    by (simp_all add: h_def)
  have d1: "loc_set_labels (map fst (filter snd (duplicated (id_values d))))
              (\<lambda>r. r\<lparr>ID_Match := True\<rparr>) d = d1"
    unfolding d1_def h_def
    by (rule loc_set_labels_char) (simp only: dup_labels_set mem_Collect_eq simp_thms)
  have ids: "set ids = {v. 1 < length (id_recs_of d v)}"
    unfolding ids_def by (rule set_dup_ids)
  have er: "\<And>w. group_err b t d1 w = group_err b t d w"
    unfolding d1_def by (rule group_keys(4)) (rule hk)+
  have tx: "\<And>w. group_tax_ok d1 w = group_tax_ok d w"
    unfolding d1_def by (rule group_keys(1)) (rule hk)+
  have am: "\<And>w. group_amount_ok b t d1 w = group_amount_ok b t d w"
    unfolding d1_def by (rule group_keys(3)) (rule hk)+
  have upd: "\<And>w r. group_upd b t d1 w r = group_upd b t d w r"
    by (simp only: group_upd_def tx am)
  have row: "loop_upd b t d1 (set ids) (h r) = eval_row b t d r" for r
  proof (cases "ID r")
    case None
    then show ?thesis by (simp add: loop_upd_def eval_row_def h_def)
  next
    case (Some v)
    then show ?thesis
      by (simp add: loop_upd_def eval_row_def h_def ids upd)
  qed
  have rows: "map (loop_upd b t d1 (set ids)) d1 = map (eval_row b t d) d"
    unfolding d1_def using row [unfolded d1_def] by simp
  have "group_err b t d1 = group_err b t d"
    by (rule ext) (rule er)
  then have mf: "List.map_filter (group_err b t d1) ids = List.map_filter (group_err b t d) ids"
    by (simp only:)
  have "evaluate_items d base t = eval_loop b t ids d1"
    using True unfolding evaluate_items_def Let_def dup_any d1 b_def ids_def dup_ids_def
    by simp
  also have "\<dots> = (case List.map_filter (group_err b t d1) ids of
                       [] \<Rightarrow> Inr (map (loop_upd b t d1 (set ids)) d1)
                     | e # es \<Rightarrow> Inl e)"
    by (rule eval_loop_char)
  finally have "evaluate_items d base t =
       (case List.map_filter (group_err b t d) ids of
          [] \<Rightarrow> Inr (map (eval_row b t d) d)
        | e # es \<Rightarrow> Inl e)"
    by (simp only: rows mf)
  then show ?thesis
    by (simp only: b_def ids_def)
qed

lemma evaluate_items_Inr_iff:
  "(evaluate_items d base t = Inr out) =
     ((\<forall>v. 1 < length (id_recs_of d v) \<longrightarrow> group_err (adjust_base base) t d v = None)
      \<and> out = map (eval_row (adjust_base base) t d) d)"
proof -
  have n: "(List.map_filter (group_err (adjust_base base) t d) (dup_ids d) = [])
          = (\<forall>v. 1 < length (id_recs_of d v) \<longrightarrow> group_err (adjust_base base) t d v = None)"
    by (simp add: map_filter_Nil_iff set_dup_ids)
  show ?thesis
  proof (cases "List.map_filter (group_err (adjust_base base) t d) (dup_ids d)")
    case Nil
    then have "evaluate_items d base t = Inr (map (eval_row (adjust_base base) t d) d)"
      by (simp only: evaluate_items_char list.case)
    with Nil n show ?thesis by auto
  next
    case (Cons e es)
    then have "evaluate_items d base t = Inl e"
      by (simp only: evaluate_items_char list.case)
    with Cons n show ?thesis by auto
  qed
qed

lemma evaluate_items_rows:
  "evaluate_items d base t = Inr out \<Longrightarrow> out = map (eval_row (adjust_base base) t d) d"
  by (simp add: evaluate_items_Inr_iff)

lemma evaluate_items_no_err:
  "evaluate_items d base t = Inr out \<Longrightarrow> 1 < length (id_recs_of d v)
     \<Longrightarrow> group_err (adjust_base base) t d v = None"
  by (simp add: evaluate_items_Inr_iff)


lemma evaluate_items_nth:
  "evaluate_items d base t = Inr out \<Longrightarrow> i < length d
     \<Longrightarrow> out ! i = eval_row (adjust_base base) t d (d ! i)"
  using evaluate_items_rows [of d base t out] by simp

lemma eval_row_dup:
  "ID r = Some v \<Longrightarrow> 1 < length (id_recs_of d v)
     \<Longrightarrow> eval_row b t d r = group_upd b t d v (r\<lparr>ID_Match := True\<rparr>)"
  by (simp add: eval_row_def)

lemma group_err_NoneD:
  assumes "group_err b t d v = None"
  obtains th where "group_thresh b t d v = Inr th" "\<not> f_eq th INVALID_THRESHOLD"
  using assms by (auto simp: group_err_def split: sum.splits if_splits)






lemma eval_row_keys [simp]:
  "ID (eval_row b t d r) = ID r" "Tax (eval_row b t d r) = Tax r"
  "DC_Amount (eval_row b t d r) = DC_Amount r"
  by (simp_all add: eval_row_def split: option.splits)

lemma id_recs_of_map_length:
  assumes "\<And>r. ID (f r) = ID r"
  shows "length (id_recs_of (map f d) w) = length (id_recs_of d w)"
  using assms by (induction d) (auto simp: id_recs_of_def)

lemma eval_row_map_keys:
  assumes "\<And>r. ID (f r) = ID r" "\<And>r. Tax (f r) = Tax r"
    "\<And>r. DC_Amount (f r) = DC_Amount r"
  shows "eval_row b t (map f d) r = eval_row b t d r"
proof -
  have "group_upd b t (map f d) w x = group_upd b t d w x" for w x
    by (simp only: group_upd_def group_keys(1) [of f, OF assms] group_keys(3) [of f, OF assms])
  then show ?thesis
    by (simp add: eval_row_def id_recs_of_map_length [of f, OF assms(1)] split: option.splits)
qed

lemma eval_row_idem:
  "eval_row b t d (eval_row b t d r) = eval_row b t d r"
  by (simp add: eval_row_def group_upd_def split: option.splits)

lemma eval_row_frame:
  "eval_row b t d r =
     r\<lparr>ID_Match := ID_Match (eval_row b t d r), Tax_Match := Tax_Match (eval_row b t d r),
       Amount_Match := Amount_Match (eval_row b t d r)\<rparr>"
  by (simp add: eval_row_def group_upd_def split: option.splits)

lemma eval_row_mono:
  "ID_Match r \<Longrightarrow> ID_Match (eval_row b t d r)"
  "Tax_Match r \<Longrightarrow> Tax_Match (eval_row b t d r)"
  "Amount_Match r \<Longrightarrow> Amount_Match (eval_row b t d r)"
  by (simp_all add: eval_row_def group_upd_def split: option.splits)

section \<open>Evaluation of float sums\<close>

lemma round64_0 [simp]: "round64 0 = Val 0"
  by (simp add: round64_def)

lemma f_add_Val: "f_add (Val a) (Val b) = round64 (a + b)"
  by (simp add: f_add_def)

lemma f_lt_Val [simp]: "f_lt (Val a) (Val b) = (a < b)"
  by (simp add: f_lt_def)

lemma f_abs_Val [simp]: "f_abs (Val a) = Val \<bar>a\<bar>"
  by (simp add: f_abs_def)

lemma f_eq_Val [simp]: "f_eq x (Val a) = (x = Val a)"
  by (auto simp: f_eq_def)

lemma f_lt_asym: "f_lt x y \<Longrightarrow> \<not> f_lt y x"
  by (cases x; cases y) (simp_all add: f_lt_def)

lemma pairwise_sum_small: "length a < 8 \<Longrightarrow> pairwise_sum a = foldl f_add (Val 0) a"
  by (subst pairwise_sum.simps) (simp add: Let_def)

lemma series_sum_small:
  "length xs < 8 \<Longrightarrow>
     series_sum xs = f_add (Val 0) (foldl f_add (Val 0) (map (\<lambda>x. if x = NaN then Val 0 else x) xs))"
  by (simp add: series_sum_def pairwise_sum_small)

text \<open>Roundings of the numbers that occur in the examples below.\<close>

lemma round64_100: "round64 (100) = Val (100)"
  apply (simp add: round64_def Let_def)
  apply (simp add: ilog2_def bit_length.simps)
  apply (simp add: pow2_def)
  apply (simp add: rne_def)
  done

lemma round64_neg_1: "round64 (- 1) = Val (- 1)"
  apply (simp add: round64_def Let_def)
  apply (simp add: ilog2_def bit_length.simps)
  apply (simp add: pow2_def)
  apply (simp add: rne_def)
  done

lemma round64_1e16: "round64 (10000000000000000) = Val (10000000000000000)"
  apply (simp add: round64_def Let_def)
  apply (simp add: ilog2_def bit_length.simps)
  apply (simp add: pow2_def)
  apply (simp add: rne_def)
  done

lemma round64_1e16_plus_1: "round64 10000000000000001 = Val (10000000000000000)"
  apply (simp add: round64_def Let_def)
  apply (simp add: ilog2_def bit_length.simps)
  apply (simp add: pow2_def)
  apply (simp add: rne_def)
  done

lemma round64_2p53: "round64 (9007199254740992) = Val (9007199254740992)"
  apply (simp add: round64_def Let_def)
  apply (simp add: ilog2_def bit_length.simps)
  apply (simp add: pow2_def)
  apply (simp add: rne_def)
  done

lemma round64_2p53_plus_1: "round64 9007199254740993 = Val (9007199254740992)"
  apply (simp add: round64_def Let_def)
  apply (simp add: ilog2_def bit_length.simps)
  apply (simp add: pow2_def)
  apply (simp add: rne_def)
  done

lemma round64_dec_0_13: "round64 (13 / 100) = Val (1170935903116329 / 9007199254740992)"
  apply (simp add: round64_def Let_def)
  apply (simp add: ilog2_def bit_length.simps)
  apply (simp add: pow2_def)
  apply (simp add: rne_def)
  done

lemma round64_dec_neg_1_13: "round64 (- (113 / 100)) = Val (- (1272266894732165 / 1125899906842624))"
  apply (simp add: round64_def Let_def)
  apply (simp add: ilog2_def bit_length.simps)
  apply (simp add: pow2_def)
  apply (simp add: rne_def)
  done

lemma round64_0_13: "round64 (1170935903116329 / 9007199254740992) = Val (1170935903116329 / 9007199254740992)"
  apply (simp add: round64_def Let_def)
  apply (simp add: ilog2_def bit_length.simps)
  apply (simp add: pow2_def)
  apply (simp add: rne_def)
  done

lemma round64_diff_1: "round64 (- (9007199254740991 / 9007199254740992)) = Val (- (9007199254740991 / 9007199254740992))"
  apply (simp add: round64_def Let_def)
  apply (simp add: ilog2_def bit_length.simps)
  apply (simp add: pow2_def)
  apply (simp add: rne_def)
  done

lemma round64_dec_0_01: "round64 (1 / 100) = Val (5764607523034235 / 576460752303423488)"
  apply (simp add: round64_def Let_def)
  apply (simp add: ilog2_def bit_length.simps)
  apply (simp add: pow2_def)
  apply (simp add: rne_def)
  done

lemma round64_dec_0_02: "round64 (2 / 100) = Val (5764607523034235 / 288230376151711744)"
  apply (simp add: round64_def Let_def)
  apply (simp add: ilog2_def bit_length.simps)
  apply (simp add: pow2_def)
  apply (simp add: rne_def)
  done

lemma round64_0_01: "round64 (5764607523034235 / 576460752303423488) = Val (5764607523034235 / 576460752303423488)"
  apply (simp add: round64_def Let_def)
  apply (simp add: ilog2_def bit_length.simps)
  apply (simp add: pow2_def)
  apply (simp add: rne_def)
  done

lemma round64_0_02: "round64 (5764607523034235 / 288230376151711744) = Val (5764607523034235 / 288230376151711744)"
  apply (simp add: round64_def Let_def)
  apply (simp add: ilog2_def bit_length.simps)
  apply (simp add: pow2_def)
  apply (simp add: rne_def)
  done

lemma round64_0_04: "round64 (5764607523034235 / 144115188075855872) = Val (5764607523034235 / 144115188075855872)"
  apply (simp add: round64_def Let_def)
  apply (simp add: ilog2_def bit_length.simps)
  apply (simp add: pow2_def)
  apply (simp add: rne_def)
  done

lemma round64_dec_0_06: "round64 (6 / 100) = Val (1080863910568919 / 18014398509481984)"
  apply (simp add: round64_def Let_def)
  apply (simp add: ilog2_def bit_length.simps)
  apply (simp add: pow2_def)
  apply (simp add: rne_def)
  done

lemma round64_dec_neg_0_05: "round64 (- (5 / 100)) = Val (- (3602879701896397 / 72057594037927936))"
  apply (simp add: round64_def Let_def)
  apply (simp add: ilog2_def bit_length.simps)
  apply (simp add: pow2_def)
  apply (simp add: rne_def)
  done

lemma round64_0_06: "round64 (1080863910568919 / 18014398509481984) = Val (1080863910568919 / 18014398509481984)"
  apply (simp add: round64_def Let_def)
  apply (simp add: ilog2_def bit_length.simps)
  apply (simp add: pow2_def)
  apply (simp add: rne_def)
  done

lemma round64_diff_2: "round64 (720575940379279 / 72057594037927936) = Val (720575940379279 / 72057594037927936)"
  apply (simp add: round64_def Let_def)
  apply (simp add: ilog2_def bit_length.simps)
  apply (simp add: pow2_def)
  apply (simp add: rne_def)
  done

lemma series_sum_100: "series_sum [Val 100, Val (- 100)] = Val 0"
  by (simp add: series_sum_small f_add_Val round64_100)

lemma adjust_base_0: "adjust_base (Val 0) = float_0_01"
  by (simp add: adjust_base_def float_0_01_def f_add_Val round64_0_01)

lemma adjust_base_other: "base \<noteq> Val 0 \<Longrightarrow> adjust_base base = base"
  by (simp add: adjust_base_def)

section \<open>Closed form of the virtual identifier loop\<close>

lemma assign_cases_char:
  "assign_cases c cids v =
     map (\<lambda>r. if list_ex (\<lambda>cid. ID r = Some cid) cids then r\<lparr>Virtual_ID := Some c\<rparr> else r) v"
proof (induction cids arbitrary: v)
  case Nil
  show ?case by (simp add: assign_cases_def map_idI)
next
  case (Cons a cids)
  have "assign_cases c (a # cids) v
          = assign_cases c cids
              (loc_set (\<lambda>r. ID r = Some a) (\<lambda>r. r\<lparr>Virtual_ID := Some c\<rparr>) v)"
    by (simp add: assign_cases_def)
  then show ?case
    by (simp add: Cons.IH loc_set_def comp_def cong: map_cong)
qed


lemma length_assign_cases [simp]: "length (assign_cases c cids v) = length v"
  by (simp add: assign_cases_char)



lemma final_vid_untouched:
  assumes "\<forall>idx \<in> set idxs. \<not> touches cs data idx j"
  shows "final_vid cs data j idxs c v = v"
  using assms by (induction idxs arbitrary: c v) simp_all





section \<open>Checkpoint store and stage lemmas\<close>

lemma get_after_save:
  "save_entity_state w e k v = Inr w' \<Longrightarrow>
     get_entity_state w' e' k' = (if e' = e \<and> k' = k then Inr v else get_entity_state w e' k')"
  by (auto simp: save_entity_state_def get_entity_state_def Let_def
      split: option.splits if_splits)

lemma save_frame:
  "save_entity_state w e k v = Inr w' \<Longrightarrow>
     trace w' = trace w \<and> accum w' = accum w \<and> dumps w' = dumps w
     \<and> rec_file w' = ent_states w'"
  by (auto simp: save_entity_state_def Let_def split: option.splits)

lemma get_log_event [simp]: "get_entity_state (log_event w ev) e k = get_entity_state w e k"
  by (simp add: log_event_def get_entity_state_def)

lemma get_store_dump [simp]: "get_entity_state (store_dump w e0 kind d) e k = get_entity_state w e k"
  by (simp add: store_dump_def get_entity_state_def)

lemma get_store_accum:
  "store_to_accum w e0 key d f = Inr w' \<Longrightarrow> get_entity_state w' e k = get_entity_state w e k"
  by (auto simp: store_to_accum_def get_entity_state_def split: if_splits)

lemma store_accum_frame:
  "store_to_accum w e0 key d f = Inr w' \<Longrightarrow>
     trace w' = trace w \<and> ent_states w' = ent_states w \<and> rec_file w' = rec_file w
     \<and> dumps w' = dumps w"
  by (auto simp: store_to_accum_def split: if_splits)

lemma trace_log_event [simp]: "trace (log_event w ev) = trace w @ [ev]"
  by (simp add: log_event_def)

lemma log_event_frame [simp]:
  "ent_states (log_event w ev) = ent_states w" "rec_file (log_event w ev) = rec_file w"
  "accum (log_event w ev) = accum w" "dumps (log_event w ev) = dumps w"
  by (simp_all add: log_event_def)

lemma store_dump_frame [simp]:
  "ent_states (store_dump w e k d) = ent_states w" "rec_file (store_dump w e k d) = rec_file w"
  "accum (store_dump w e k d) = accum w" "trace (store_dump w e k d) = trace w"
  by (simp_all add: store_dump_def)


lemma export_loop_cons_cases:
  assumes "export_fbl5n_loop gt ex ((ent, cocd) # rest) s w = Inr (w', ok)"
  obtains (skip) "get_entity_state w ent ''fbl5n_data_exported'' = Inr True"
      "export_fbl5n_loop gt ex rest True w = Inr (w', ok)"
  | (nodata) "get_entity_state w ent ''fbl5n_data_exported'' = Inr False"
      "ex ent = Exp_no_data"
      "export_fbl5n_loop gt ex rest s (log_event w (Ev_fbl5n_export ent)) = Inr (w', ok)"
  | (saved) w2 where "get_entity_state w ent ''fbl5n_data_exported'' = Inr False"
      "ex ent = Exp_done \<or> ex ent = Exp_abap_error \<or> ex ent = Exp_worklist_not_found"
      "save_entity_state (log_event w (Ev_fbl5n_export ent)) ent ''fbl5n_data_exported'' True
         = Inr w2"
      "export_fbl5n_loop gt ex rest True w2 = Inr (w', ok)"
proof (cases "get_entity_state w ent ''fbl5n_data_exported''")
  case (Inl e)
  with assms show ?thesis by simp
next
  case (Inr b)
  show ?thesis
  proof (cases b)
    case True
    with Inr assms show ?thesis by (intro skip) simp_all
  next
    case False
    show ?thesis
    proof (cases "worklist_of (gt ent) ent")
      case (Inl e)
      with assms Inr False show ?thesis by simp
    next
      case wl: (Inr worklist)
      show ?thesis
      proof (cases "ex ent")
        case Exp_no_data
        with assms wl Inr False show ?thesis by (intro nodata) simp_all
      next
        case Exp_done
        with assms wl Inr False obtain w2 where
          "save_entity_state (log_event w (Ev_fbl5n_export ent)) ent ''fbl5n_data_exported'' True
             = Inr w2" "export_fbl5n_loop gt ex rest True w2 = Inr (w', ok)"
          by (simp split: sum.splits)
        with Inr False Exp_done show ?thesis by (intro saved) simp_all
      next
        case Exp_abap_error
        with assms wl Inr False obtain w2 where
          "save_entity_state (log_event w (Ev_fbl5n_export ent)) ent ''fbl5n_data_exported'' True
             = Inr w2" "export_fbl5n_loop gt ex rest True w2 = Inr (w', ok)"
          by (simp split: sum.splits)
        with Inr False Exp_abap_error show ?thesis by (intro saved) simp_all
      next
        case Exp_worklist_not_found
        with assms wl Inr False obtain w2 where
          "save_entity_state (log_event w (Ev_fbl5n_export ent)) ent ''fbl5n_data_exported'' True
             = Inr w2" "export_fbl5n_loop gt ex rest True w2 = Inr (w', ok)"
          by (simp split: sum.splits)
        with Inr False Exp_worklist_not_found show ?thesis by (intro saved) simp_all
      next
        case Exp_connection_lost
        with assms wl Inr False show ?thesis by simp
      next
        case (Exp_raises e)
        with assms wl Inr False show ?thesis by simp
      qed
    qed
  qed
qed



lemma gated_refl: "gated key work keys w w"
  by (simp add: gated_def new_events_def)

lemma new_events_append: "trace w' = trace w @ xs \<Longrightarrow> new_events w w' = xs"
  by (simp add: new_events_def)

lemma gated_trans_step:
  assumes tr: "trace w1 = trace w @ pre"
    and pre: "\<And>ent. work ent \<in> set pre \<Longrightarrow> get_entity_state w ent key = Inr False"
    and mono: "\<And>ent k. get_entity_state w ent k = Inr True \<Longrightarrow> get_entity_state w1 ent k = Inr True"
    and bk: "\<And>ent. get_entity_state w1 ent key = Inr False
                  \<Longrightarrow> get_entity_state w ent key = Inr False"
    and keep: "\<And>ent k. k \<notin> keys \<Longrightarrow> get_entity_state w1 ent k = get_entity_state w ent k"
    and fl: "rec_file w = ent_states w \<Longrightarrow> rec_file w1 = ent_states w1"
    and g: "gated key work keys w1 w'"
  shows "gated key work keys w w'"
proof -
  from g have t1: "trace w' = trace w1 @ new_events w1 w'"
    and g1: "\<And>ent. work ent \<in> set (new_events w1 w')
               \<Longrightarrow> get_entity_state w1 ent key = Inr False"
    and m1: "\<And>ent k. get_entity_state w1 ent k = Inr True \<Longrightarrow> get_entity_state w' ent k = Inr True"
    and k1: "\<And>ent k. k \<notin> keys \<Longrightarrow> get_entity_state w' ent k = get_entity_state w1 ent k"
    and f1: "rec_file w1 = ent_states w1 \<Longrightarrow> rec_file w' = ent_states w'"
    unfolding gated_def by blast+
  have t: "trace w' = trace w @ (pre @ new_events w1 w')"
    using t1 tr by simp
  then have ne: "new_events w w' = pre @ new_events w1 w'"
    by (rule new_events_append)
  show ?thesis
    unfolding gated_def ne
  proof (intro conjI allI impI)
    show "trace w' = trace w @ pre @ new_events w1 w'" using t by simp
  next
    fix ent assume "work ent \<in> set (pre @ new_events w1 w')"
    then consider "work ent \<in> set pre" | "work ent \<in> set (new_events w1 w')" by auto
    then show "get_entity_state w ent key = Inr False"
    proof cases
      case 1 then show ?thesis by (rule pre)
    next
      case 2 then show ?thesis using g1 bk by blast
    qed
  next
    fix ent k assume "get_entity_state w ent k = Inr True"
    then show "get_entity_state w' ent k = Inr True" using mono m1 by blast
  next
    fix ent k assume "k \<notin> keys"
    then show "get_entity_state w' ent k = get_entity_state w ent k"
      using keep k1 by simp
  next
    assume "rec_file w = ent_states w"
    then show "rec_file w' = ent_states w'" using fl f1 by blast
  qed
qed

lemma export_fbl5n_loop_gated:
  "export_fbl5n_loop gt ex entits s w = Inr (w', ok) \<Longrightarrow>
     gated ''fbl5n_data_exported'' Ev_fbl5n_export {''fbl5n_data_exported''} w w'"
proof (induction entits arbitrary: s w w' ok)
  case Nil
  then show ?case by (simp add: gated_refl)
next
  case (Cons p rest)
  obtain ent cocd where p: "p = (ent, cocd)" by (cases p)
  from Cons.prems [unfolded p] show ?case
  proof (cases rule: export_loop_cons_cases)
    case skip
    from Cons.IH [OF skip(2)] show ?thesis .
  next
    case nodata
    let ?w1 = "log_event w (Ev_fbl5n_export ent)"
    show ?thesis
    proof (rule gated_trans_step [where ?w1.0 = ?w1 and pre = "[Ev_fbl5n_export ent]"])
      show "gated ''fbl5n_data_exported'' Ev_fbl5n_export {''fbl5n_data_exported''} ?w1 w'"
        by (rule Cons.IH [OF nodata(3)])
    qed (use nodata(1) in simp_all)
  next
    case (saved w2)
    note g2 = get_after_save [OF saved(3)]
    note f2 = save_frame [OF saved(3)]
    show ?thesis
    proof (rule gated_trans_step [where ?w1.0 = w2 and pre = "[Ev_fbl5n_export ent]"])
      show "gated ''fbl5n_data_exported'' Ev_fbl5n_export {''fbl5n_data_exported''} w2 w'"
        by (rule Cons.IH [OF saved(4)])
      show "trace w2 = trace w @ [Ev_fbl5n_export ent]" using f2 by simp
      show "rec_file w2 = ent_states w2" using f2 by simp
    next
      fix e assume "Ev_fbl5n_export e \<in> set [Ev_fbl5n_export ent]"
      then show "get_entity_state w e ''fbl5n_data_exported'' = Inr False"
        using saved(1) by simp
    next
      fix e k assume "get_entity_state w e k = Inr True"
      then show "get_entity_state w2 e k = Inr True" by (simp add: g2)
    next
      fix e assume "get_entity_state w2 e ''fbl5n_data_exported'' = Inr False"
      then show "get_entity_state w e ''fbl5n_data_exported'' = Inr False"
        by (simp add: g2 split: if_splits)
    next
      fix e k assume "k \<notin> {''fbl5n_data_exported''}"
      then show "get_entity_state w2 e k = get_entity_state w e k" by (simp add: g2)
    qed
  qed
qed

lemma load_loop_cons_cases:
  assumes "load_fbl5n_loop pp ((ent, cocd) # rest) s w = Inr (w', ok)"
  obtains (notexp) w1 where "get_entity_state w ent ''fbl5n_data_exported'' = Inr False"
      "store_to_accum w ent ''fbl5n_data'' None False = Inr w1"
      "load_fbl5n_loop pp rest s w1 = Inr (w', ok)"
  | (proc) converted w1 conv w2 w3 w4 where
      "get_entity_state w ent ''fbl5n_data_exported'' = Inr True"
      "get_entity_state w ent ''fbl5n_data_converted'' = Inr converted"
      "(converted \<and> w1 = w \<and> read_dump w ent ''fbl5n_data'' = Inr (Ledger conv))
       \<or> (\<not> converted \<and> pp ent = Inr conv \<and> w1 = log_event w (Ev_preprocess_fbl5n ent))"
      "save_entity_state (store_dump w1 ent ''fbl5n_data'' (Ledger conv)) ent
         ''fbl5n_data_converted'' True = Inr w2"
      "(if \<not> exist_cases conv then save_entity_state w2 ent ''fbl5n_data_no_case'' True
        else Inr w2) = Inr w3"
      "store_to_accum w3 ent ''fbl5n_data'' (Some (Ledger conv)) True = Inr w4"
      "load_fbl5n_loop pp rest True w4 = Inr (w', ok)"
proof (cases "get_entity_state w ent ''fbl5n_data_exported''")
  case (Inl e)
  with assms show ?thesis by simp
next
  case (Inr b)
  show ?thesis
  proof (cases b)
    case False
    with Inr assms obtain w1 where
      "store_to_accum w ent ''fbl5n_data'' None False = Inr w1"
      "load_fbl5n_loop pp rest s w1 = Inr (w', ok)"
      by (simp split: sum.splits)
    with Inr False show ?thesis by (intro notexp) simp_all
  next
    case True
    show ?thesis
    proof (cases "get_entity_state w ent ''fbl5n_data_converted''")
      case (Inl e)
      with assms Inr True show ?thesis by simp
    next
      case cv: (Inr converted)
      define src where "src = (if converted
                     then (case read_dump w ent ''fbl5n_data'' of
                             Inl e \<Rightarrow> Inl e
                           | Inr (Ledger conv) \<Rightarrow> Inr (w, conv)
                           | Inr _ \<Rightarrow> Inl TypeError)
                     else (case pp ent of
                             Inl e \<Rightarrow> Inl e
                           | Inr conv \<Rightarrow> Inr (log_event w (Ev_preprocess_fbl5n ent), conv)))"
      have eq: "(case src of
                 Inl e \<Rightarrow> Inl e
               | Inr (w1, conv) \<Rightarrow>
                  (case save_entity_state (store_dump w1 ent ''fbl5n_data'' (Ledger conv))
                          ent ''fbl5n_data_converted'' True of
                     Inl e \<Rightarrow> Inl e
                   | Inr w2 \<Rightarrow>
                      (case (if \<not> exist_cases conv
                             then save_entity_state w2 ent ''fbl5n_data_no_case'' True
                             else Inr w2) of
                         Inl e \<Rightarrow> Inl e
                       | Inr w3 \<Rightarrow>
                          (case store_to_accum w3 ent ''fbl5n_data'' (Some (Ledger conv)) True of
                             Inl e \<Rightarrow> Inl e
                           | Inr w4 \<Rightarrow> load_fbl5n_loop pp rest True w4)))) = Inr (w', ok)"
        using assms Inr True cv unfolding src_def by simp
      then obtain w1 conv where src: "src = Inr (w1, conv)"
        by (cases src) auto
      with eq obtain w2 where w2: "save_entity_state (store_dump w1 ent ''fbl5n_data'' (Ledger conv))
                          ent ''fbl5n_data_converted'' True = Inr w2"
        by (simp split: sum.splits)
      with eq src obtain w3 where w3: "(if \<not> exist_cases conv
                             then save_entity_state w2 ent ''fbl5n_data_no_case'' True
                             else Inr w2) = Inr w3"
        by (simp split: sum.splits)
      with eq src w2 obtain w4 where
        w4: "store_to_accum w3 ent ''fbl5n_data'' (Some (Ledger conv)) True = Inr w4"
        and r: "load_fbl5n_loop pp rest True w4 = Inr (w', ok)"
        by (simp split: sum.splits)
      have how: "(converted \<and> w1 = w \<and> read_dump w ent ''fbl5n_data'' = Inr (Ledger conv))
       \<or> (\<not> converted \<and> pp ent = Inr conv \<and> w1 = log_event w (Ev_preprocess_fbl5n ent))"
        using src unfolding src_def
        by (cases converted) (auto split: sum.splits data.splits)
      from Inr True cv how w2 w3 w4 r show ?thesis by (intro proc) simp_all
    qed
  qed
qed


lemma load_proc_effect:
  assumes how: "(converted \<and> w1 = w \<and> read_dump w ent ''fbl5n_data'' = Inr (Ledger conv))
       \<or> (\<not> converted \<and> pp ent = Inr conv \<and> w1 = log_event w (Ev_preprocess_fbl5n ent))"
    and s2: "save_entity_state (store_dump w1 ent ''fbl5n_data'' (Ledger conv)) ent
         ''fbl5n_data_converted'' True = Inr w2"
    and s3: "(if \<not> exist_cases conv then save_entity_state w2 ent ''fbl5n_data_no_case'' True
        else Inr w2) = Inr w3"
    and s4: "store_to_accum w3 ent ''fbl5n_data'' (Some (Ledger conv)) True = Inr w4"
  shows "trace w4 = trace w @ (if converted then [] else [Ev_preprocess_fbl5n ent])"
    and "get_entity_state w4 e k =
           (if e = ent \<and> (k = ''fbl5n_data_converted''
                           \<or> (k = ''fbl5n_data_no_case'' \<and> \<not> exist_cases conv))
            then Inr True else get_entity_state w e k)"
    and "rec_file w4 = ent_states w4"
    and "accum w4 ''fbl5n_data'' ent = Some (Some (Ledger conv))"
proof -
  have g1: "get_entity_state w1 e k = get_entity_state w e k" for e k
    using how by auto
  have t1: "trace w1 = trace w @ (if converted then [] else [Ev_preprocess_fbl5n ent])"
    using how by auto
  note g2 = get_after_save [OF s2]
  note f2 = save_frame [OF s2]
  have g3: "get_entity_state w3 e k =
              (if e = ent \<and> k = ''fbl5n_data_no_case'' \<and> \<not> exist_cases conv then Inr True
               else get_entity_state w2 e k)" for e k
  proof (cases "exist_cases conv")
    case True
    with s3 show ?thesis by simp
  next
    case False
    with s3 have "save_entity_state w2 ent ''fbl5n_data_no_case'' True = Inr w3" by simp
    from get_after_save [OF this] False show ?thesis by simp
  qed
  have f3: "trace w3 = trace w2 \<and> rec_file w3 = ent_states w3"
  proof (cases "exist_cases conv")
    case True
    with s3 f2 show ?thesis by simp
  next
    case False
    with s3 have "save_entity_state w2 ent ''fbl5n_data_no_case'' True = Inr w3" by simp
    from save_frame [OF this] show ?thesis by simp
  qed
  note g4 = get_store_accum [OF s4]
  note f4 = store_accum_frame [OF s4]
  show "trace w4 = trace w @ (if converted then [] else [Ev_preprocess_fbl5n ent])"
    using f4 f3 f2 t1 by simp
  show "get_entity_state w4 e k =
           (if e = ent \<and> (k = ''fbl5n_data_converted''
                           \<or> (k = ''fbl5n_data_no_case'' \<and> \<not> exist_cases conv))
            then Inr True else get_entity_state w e k)"
    by (auto simp add: g4 g3 g2 g1)
  show "rec_file w4 = ent_states w4" using f4 f3 by simp
  show "accum w4 ''fbl5n_data'' ent = Some (Some (Ledger conv))"
    using s4 by (auto simp: store_to_accum_def)
qed

lemma load_fbl5n_loop_gated:
  "load_fbl5n_loop pp entits s w = Inr (w', ok) \<Longrightarrow>
     gated ''fbl5n_data_converted'' Ev_preprocess_fbl5n
       {''fbl5n_data_converted'', ''fbl5n_data_no_case''} w w'"
proof (induction entits arbitrary: s w w' ok)
  case Nil
  then show ?case by (simp add: gated_refl)
next
  case (Cons p rest)
  obtain ent cocd where p: "p = (ent, cocd)" by (cases p)
  from Cons.prems [unfolded p] show ?case
  proof (cases rule: load_loop_cons_cases)
    case (notexp w1)
    note g = get_store_accum [OF notexp(2)]
    note f = store_accum_frame [OF notexp(2)]
    show ?thesis
    proof (rule gated_trans_step [where ?w1.0 = w1 and pre = "[]"])
      show "gated ''fbl5n_data_converted'' Ev_preprocess_fbl5n
              {''fbl5n_data_converted'', ''fbl5n_data_no_case''} w1 w'"
        by (rule Cons.IH [OF notexp(3)])
    qed (use f in \<open>simp_all add: g\<close>)
  next
    case (proc converted w1 conv w2 w3 w4)
    note eff = load_proc_effect [where pp = pp, OF proc(3) proc(4) proc(5) proc(6)]
    show ?thesis
    proof (rule gated_trans_step [where ?w1.0 = w4
          and pre = "if converted then [] else [Ev_preprocess_fbl5n ent]"])
      show "gated ''fbl5n_data_converted'' Ev_preprocess_fbl5n
              {''fbl5n_data_converted'', ''fbl5n_data_no_case''} w4 w'"
        by (rule Cons.IH [OF proc(7)])
      show "trace w4 = trace w @ (if converted then [] else [Ev_preprocess_fbl5n ent])"
        by (rule eff(1))
      show "rec_file w4 = ent_states w4" by (rule eff(3))
    next
      fix e assume "Ev_preprocess_fbl5n e
                      \<in> set (if converted then [] else [Ev_preprocess_fbl5n ent])"
      then have "e = ent" "\<not> converted" by (auto split: if_splits)
      then show "get_entity_state w e ''fbl5n_data_converted'' = Inr False"
        using proc(2) by simp
    next
      fix e k assume "get_entity_state w e k = Inr True"
      then show "get_entity_state w4 e k = Inr True" by (simp add: eff(2))
    next
      fix e assume "get_entity_state w4 e ''fbl5n_data_converted'' = Inr False"
      then show "get_entity_state w e ''fbl5n_data_converted'' = Inr False"
        by (simp add: eff(2) split: if_splits)
    next
      fix e k assume "k \<notin> {''fbl5n_data_converted'', ''fbl5n_data_no_case''}"
      then show "get_entity_state w4 e k = get_entity_state w e k" by (simp add: eff(2))
    qed
  qed
qed

lemma gated_traceD: "gated key work keys w w' \<Longrightarrow> trace w' = trace w @ new_events w w'"
  by (simp add: gated_def)

lemma gated_monoD:
  "gated key work keys w w' \<Longrightarrow> get_entity_state w ent k = Inr True
     \<Longrightarrow> get_entity_state w' ent k = Inr True"
  by (simp add: gated_def)

lemma gated_keepD:
  "gated key work keys w w' \<Longrightarrow> k \<notin> keys
     \<Longrightarrow> get_entity_state w' ent k = get_entity_state w ent k"
  by (simp add: gated_def)

lemma gated_workD:
  "gated key work keys w w' \<Longrightarrow> work ent \<in> set (new_events w w')
     \<Longrightarrow> get_entity_state w ent key = Inr False"
  by (simp add: gated_def)

lemma gated_fileD:
  "gated key work keys w w' \<Longrightarrow> rec_file w = ent_states w \<Longrightarrow> rec_file w' = ent_states w'"
  by (simp add: gated_def)

lemma new_events_trans:
  "trace w1 = trace w @ xs \<Longrightarrow> trace w' = trace w1 @ ys \<Longrightarrow> new_events w w' = xs @ ys"
  by (simp add: new_events_def)

lemma export_completed:
  "export_fbl5n_loop gt ex entits s w = Inr (w', ok) \<Longrightarrow> (ent, cocd) \<in> set entits
     \<Longrightarrow> ex ent \<noteq> Exp_no_data
     \<Longrightarrow> get_entity_state w' ent ''fbl5n_data_exported'' = Inr True"
proof (induction entits arbitrary: s w w' ok)
  case Nil
  then show ?case by simp
next
  case (Cons p rest)
  obtain e c where p: "p = (e, c)" by (cases p)
  from Cons.prems(1) [unfolded p] show ?case
  proof (cases rule: export_loop_cons_cases)
    case skip
    show ?thesis
    proof (cases "e = ent")
      case True
      with skip(1) export_fbl5n_loop_gated [OF skip(2)] show ?thesis
        by (auto dest: gated_monoD)
    next
      case False
      with Cons.prems(2) p have "(ent, cocd) \<in> set rest" by auto
      from Cons.IH [OF skip(2) this Cons.prems(3)] show ?thesis .
    qed
  next
    case nodata
    with Cons.prems(3) have "e \<noteq> ent" by auto
    with Cons.prems(2) p have "(ent, cocd) \<in> set rest" by auto
    from Cons.IH [OF nodata(3) this Cons.prems(3)] show ?thesis .
  next
    case (saved w2)
    show ?thesis
    proof (cases "e = ent")
      case True
      have "get_entity_state w2 ent ''fbl5n_data_exported'' = Inr True"
        using get_after_save [OF saved(3)] True by simp
      with export_fbl5n_loop_gated [OF saved(4)] show ?thesis
        by (auto dest: gated_monoD)
    next
      case False
      with Cons.prems(2) p have "(ent, cocd) \<in> set rest" by auto
      from Cons.IH [OF saved(4) this Cons.prems(3)] show ?thesis .
    qed
  qed
qed

lemma load_completed:
  "load_fbl5n_loop pp entits s w = Inr (w', ok) \<Longrightarrow> (ent, cocd) \<in> set entits
     \<Longrightarrow> get_entity_state w ent ''fbl5n_data_exported'' = Inr True
     \<Longrightarrow> get_entity_state w' ent ''fbl5n_data_converted'' = Inr True
         \<and> (get_entity_state w ent ''fbl5n_data_converted'' = Inr False
              \<longrightarrow> Ev_preprocess_fbl5n ent \<in> set (new_events w w'))"
proof (induction entits arbitrary: s w w' ok)
  case Nil
  then show ?case by simp
next
  case (Cons p rest)
  obtain e c where p: "p = (e, c)" by (cases p)
  from Cons.prems(1) [unfolded p] show ?case
  proof (cases rule: load_loop_cons_cases)
    case (notexp w1)
    with Cons.prems(3) have ne: "e \<noteq> ent" by auto
    with Cons.prems(2) p have mem: "(ent, cocd) \<in> set rest" by auto
    note g = get_store_accum [OF notexp(2)]
    note f = store_accum_frame [OF notexp(2)]
    have ex1: "get_entity_state w1 ent ''fbl5n_data_exported'' = Inr True"
      using Cons.prems(3) by (simp add: g)
    note ih = Cons.IH [OF notexp(3) mem ex1]
    have "new_events w w' = new_events w1 w'"
      using f by (simp add: new_events_def)
    with ih show ?thesis by (simp add: g)
  next
    case (proc converted w1 conv w2 w3 w4)
    note eff = load_proc_effect [where pp = pp, OF proc(3) proc(4) proc(5) proc(6)]
    note gr = load_fbl5n_loop_gated [OF proc(7)]
    have ne: "new_events w w'
                = (if converted then [] else [Ev_preprocess_fbl5n e]) @ new_events w4 w'"
      using eff(1) gated_traceD [OF gr] by (rule new_events_trans)
    show ?thesis
    proof (cases "e = ent")
      case True
      have "get_entity_state w4 ent ''fbl5n_data_converted'' = Inr True"
        using True by (simp add: eff(2))
      then have a: "get_entity_state w' ent ''fbl5n_data_converted'' = Inr True"
        using gr by (rule gated_monoD [rotated])
      have b: "get_entity_state w ent ''fbl5n_data_converted'' = Inr False
              \<longrightarrow> Ev_preprocess_fbl5n ent \<in> set (new_events w w')"
        using proc(2) True by (auto simp: ne)
      from a b show ?thesis ..
    next
      case False
      with Cons.prems(2) p have mem: "(ent, cocd) \<in> set rest" by auto
      have ex4: "get_entity_state w4 ent ''fbl5n_data_exported'' = Inr True"
        using Cons.prems(3) False by (simp add: eff(2))
      note ih = Cons.IH [OF proc(7) mem ex4]
      have "get_entity_state w4 ent ''fbl5n_data_converted''
              = get_entity_state w ent ''fbl5n_data_converted''"
        using False by (simp add: eff(2))
      with ih show ?thesis by (simp add: ne)
    qed
  qed
qed

lemma load_events_kind:
  "load_fbl5n_loop pp entits s w = Inr (w', ok) \<Longrightarrow> ev \<in> set (new_events w w')
     \<Longrightarrow> \<exists>ent. ev = Ev_preprocess_fbl5n ent"
proof (induction entits arbitrary: s w w' ok)
  case Nil
  then show ?case by (simp add: new_events_def)
next
  case (Cons p rest)
  obtain e c where p: "p = (e, c)" by (cases p)
  from Cons.prems(1) [unfolded p] show ?case
  proof (cases rule: load_loop_cons_cases)
    case (notexp w1)
    note f = store_accum_frame [OF notexp(2)]
    have "new_events w w' = new_events w1 w'"
      using f by (simp add: new_events_def)
    with Cons.IH [OF notexp(3)] Cons.prems(2) show ?thesis by simp
  next
    case (proc converted w1 conv w2 w3 w4)
    note eff = load_proc_effect [where pp = pp, OF proc(3) proc(4) proc(5) proc(6)]
    note gr = load_fbl5n_loop_gated [OF proc(7)]
    have ne: "new_events w w'
                = (if converted then [] else [Ev_preprocess_fbl5n e]) @ new_events w4 w'"
      using eff(1) gated_traceD [OF gr] by (rule new_events_trans)
    from Cons.prems(2) [unfolded ne] consider "ev = Ev_preprocess_fbl5n e"
      | "ev \<in> set (new_events w4 w')" by (auto split: if_splits)
    then show ?thesis
    proof cases
      case 1 then show ?thesis by blast
    next
      case 2 with Cons.IH [OF proc(7)] show ?thesis by blast
    qed
  qed
qed

section \<open>Claims about \<open>evaluate_items\<close> and \<open>get_matched_items\<close>\<close>

lemmas eval_defs = evaluate_items_def id_values_def duplicated_def loc_set_labels_def
  eval_group_def id_recs_of_def tax_code_of_def tax_compatible_def non_null_taxes_def
  resolve_thresh_def amounts_match_def loc_set_def adjust_base_def INVALID_THRESHOLD_def
  parsed_row_def item_def NULL_TAX_def allowed_tax_codes_def Let_def
  series_sum_small f_add_Val

text \<open>
  Claim C1, as the code has it. The amounts are float64 numbers and the sum is the one
  \<open>Series.sum\<close> computes in float64 arithmetic (\<open>series_sum\<close>), not the exact sum of the
  amounts. For every group of records sharing a duplicated identifier (an identifier
  \<open>v\<close> that at least two rows carry), \<open>evaluate_items\<close> writes \<open>Amount_Match = True\<close> to
  the members exactly when the absolute value of that float sum is strictly below the
  resolved threshold and at least one member amount is positive and at least one is
  negative: the flag of a member after the call is its flag before the call or that
  condition (the parser creates the flag as false). A group whose members are all
  positive is therefore not amount-matched by the call, whatever its sum. Two rows
  \<open>+100\<close> and \<open>-100\<close> with the same identifier and the same tax code, evaluated with base
  threshold 1.0 where 1.0 is also the resolved threshold, end with all three flags true.
\<close>

theorem evaluate_items_amount_match:
  fixes consolid :: "'a fbl5n_row_scheme list"
  shows
  "(\<forall>base ths out i v.
      evaluate_items consolid base ths = Inr out \<and> i < length consolid
        \<and> ID (consolid ! i) = Some v \<and> 1 < length (id_recs_of consolid v)
      \<longrightarrow> (\<exists>thresh. group_thresh (adjust_base base) ths consolid v = Inr thresh
            \<and> Amount_Match (out ! i) =
               (Amount_Match (consolid ! i)
                \<or> (f_lt (f_abs (series_sum (map DC_Amount (id_recs_of consolid v)))) thresh
                    \<and> (\<exists>r \<in> set (id_recs_of consolid v). f_lt (Val 0) (DC_Amount r))
                    \<and> (\<exists>r \<in> set (id_recs_of consolid v). f_lt (DC_Amount r) (Val 0))))))
   \<and> (\<forall>base ths out i v.
      evaluate_items consolid base ths = Inr out \<and> i < length consolid
        \<and> ID (consolid ! i) = Some v \<and> 1 < length (id_recs_of consolid v)
        \<and> (\<forall>r \<in> set (id_recs_of consolid v). f_lt (Val 0) (DC_Amount r))
      \<longrightarrow> Amount_Match (out ! i) = Amount_Match (consolid ! i))
   \<and> (\<forall>(r1 :: 'a fbl5n_row_scheme) r2 w ths.
        ID r1 = Some w \<and> ID r2 = Some w \<and> Tax r1 = Tax r2
          \<and> DC_Amount r1 = Val 100 \<and> DC_Amount r2 = Val (- 100)
          \<and> resolve_thresh (Val 1) ths (Tax r1) = Val 1
        \<longrightarrow> evaluate_items [r1, r2] (Val 1) ths =
              Inr [r1\<lparr>ID_Match := True, Amount_Match := True, Tax_Match := True\<rparr>,
                   r2\<lparr>ID_Match := True, Amount_Match := True, Tax_Match := True\<rparr>])"
proof (intro conjI allI impI)
  fix base ths out i v
  assume a: "evaluate_items consolid base ths = Inr out \<and> i < length consolid
        \<and> ID (consolid ! i) = Some v \<and> 1 < length (id_recs_of consolid v)"
  then have row: "out ! i = group_upd (adjust_base base) ths consolid v
                         ((consolid ! i)\<lparr>ID_Match := True\<rparr>)"
    using evaluate_items_nth [of consolid base ths out i]
      eval_row_dup [of "consolid ! i" v consolid "adjust_base base" ths] by simp
  from a have "group_err (adjust_base base) ths consolid v = None"
    using evaluate_items_no_err [of consolid base ths out v] by simp
  then obtain th where th: "group_thresh (adjust_base base) ths consolid v = Inr th"
    by (rule group_err_NoneD)
  have "Amount_Match (out ! i) =
            (Amount_Match (consolid ! i)
             \<or> (f_lt (f_abs (series_sum (map DC_Amount (id_recs_of consolid v)))) th
                 \<and> (\<exists>r \<in> set (id_recs_of consolid v). f_lt (Val 0) (DC_Amount r))
                 \<and> (\<exists>r \<in> set (id_recs_of consolid v). f_lt (DC_Amount r) (Val 0))))"
    by (simp add: row group_upd_def group_amount_ok_def th amounts_match_def list_ex_iff)
  with th show "\<exists>thresh. group_thresh (adjust_base base) ths consolid v = Inr thresh
            \<and> Amount_Match (out ! i) =
               (Amount_Match (consolid ! i)
                \<or> (f_lt (f_abs (series_sum (map DC_Amount (id_recs_of consolid v)))) thresh
                    \<and> (\<exists>r \<in> set (id_recs_of consolid v). f_lt (Val 0) (DC_Amount r))
                    \<and> (\<exists>r \<in> set (id_recs_of consolid v). f_lt (DC_Amount r) (Val 0))))"
    by blast
next
  fix base ths out i v
  assume a: "evaluate_items consolid base ths = Inr out \<and> i < length consolid
        \<and> ID (consolid ! i) = Some v \<and> 1 < length (id_recs_of consolid v)
        \<and> (\<forall>r \<in> set (id_recs_of consolid v). f_lt (Val 0) (DC_Amount r))"
  then have row: "out ! i = group_upd (adjust_base base) ths consolid v
                         ((consolid ! i)\<lparr>ID_Match := True\<rparr>)"
    using evaluate_items_nth [of consolid base ths out i]
      eval_row_dup [of "consolid ! i" v consolid "adjust_base base" ths] by simp
  have "\<not> (\<exists>r \<in> set (id_recs_of consolid v). f_lt (DC_Amount r) (Val 0))"
    using a f_lt_asym by blast
  then have "\<not> group_amount_ok (adjust_base base) ths consolid v"
    by (simp add: group_amount_ok_def amounts_match_def list_ex_iff split: sum.splits)
  then show "Amount_Match (out ! i) = Amount_Match (consolid ! i)"
    by (simp add: row group_upd_def)
next
  fix r1 r2 :: "'a fbl5n_row_scheme" and w and ths :: "string \<rightharpoonup> float64"
  assume "ID r1 = Some w \<and> ID r2 = Some w \<and> Tax r1 = Tax r2
          \<and> DC_Amount r1 = Val 100 \<and> DC_Amount r2 = Val (- 100)
          \<and> resolve_thresh (Val 1) ths (Tax r1) = Val 1"
  then have a: "ID r1 = Some w" "ID r2 = Some w" "Tax r2 = Tax r1"
    "DC_Amount r1 = Val 100" "DC_Amount r2 = Val (- 100)"
    "resolve_thresh (Val 1) ths (Tax r1) = Val 1"
    by auto
  have b1: "adjust_base (Val 1) = Val 1"
    by (simp add: adjust_base_def)
  have recs: "id_recs_of [r1, r2] w = [r1, r2]"
    using a by (simp add: id_recs_of_def)
  have others: "v \<noteq> w \<Longrightarrow> id_recs_of [r1, r2] v = []" for v
    using a by (simp add: id_recs_of_def)
  have taxes: "group_taxes [r1, r2] w = [Tax r1]"
    using a by (simp add: group_taxes_def recs)
  have th: "group_thresh (Val 1) ths [r1, r2] w = Inr (Val 1)"
    by (simp add: group_thresh_def taxes tax_code_of_def a(6))
  have tx: "group_tax_ok [r1, r2] w"
    by (simp add: group_tax_ok_def taxes tax_compatible_def)
  have am: "group_amount_ok (Val 1) ths [r1, r2] w"
    using a by (simp add: group_amount_ok_def th recs amounts_match_def series_sum_100)
  have noerr: "group_err (Val 1) ths [r1, r2] v = None" if "1 < length (id_recs_of [r1, r2] v)" for v
  proof -
    from that others have "v = w" by fastforce
    then show ?thesis by (simp add: group_err_def th INVALID_THRESHOLD_def)
  qed
  have "evaluate_items [r1, r2] (Val 1) ths
          = Inr (map (eval_row (Val 1) ths [r1, r2]) [r1, r2])"
    using noerr by (simp only: evaluate_items_Inr_iff b1) blast
  moreover have "eval_row (Val 1) ths [r1, r2] r1
                   = r1\<lparr>ID_Match := True, Amount_Match := True, Tax_Match := True\<rparr>"
    using a by (simp add: eval_row_def recs group_upd_def tx am)
  moreover have "eval_row (Val 1) ths [r1, r2] r2
                   = r2\<lparr>ID_Match := True, Amount_Match := True, Tax_Match := True\<rparr>"
    using a by (simp add: eval_row_def recs group_upd_def tx am)
  ultimately show "evaluate_items [r1, r2] (Val 1) ths =
              Inr [r1\<lparr>ID_Match := True, Amount_Match := True, Tax_Match := True\<rparr>,
                   r2\<lparr>ID_Match := True, Amount_Match := True, Tax_Match := True\<rparr>]"
    by simp
qed

theorem evaluate_items_amount_match_witness:
  "evaluate_items
     [item 1 (Val 100) (Some ''A1''),
      item 2 (Val 50) (Some ''A1'')]
     (Val 1) Map.empty
     = Inr [(item 1 (Val 100) (Some ''A1''))\<lparr>ID_Match := True, Tax_Match := True\<rparr>,
      (item 2 (Val 50) (Some ''A1''))\<lparr>ID_Match := True, Tax_Match := True\<rparr>]
   \<and> \<not> Amount_Match
         ([(item 1 (Val 100) (Some ''A1''))\<lparr>ID_Match := True, Tax_Match := True\<rparr>,
      (item 2 (Val 50) (Some ''A1''))\<lparr>ID_Match := True, Tax_Match := True\<rparr>] ! 0)
   \<and> evaluate_items
     [item 1 (Val 100) (Some ''A1''),
      item 2 (Val (- 100)) (Some ''A1'')]
     (Val 1) Map.empty
     = Inr [(item 1 (Val 100) (Some ''A1''))\<lparr>ID_Match := True, Amount_Match := True, Tax_Match := True\<rparr>,
      (item 2 (Val (- 100)) (Some ''A1''))\<lparr>ID_Match := True, Amount_Match := True, Tax_Match := True\<rparr>]"
proof -
  let ?d = "[item 1 (Val 100) (Some ''A1''),
      item 2 (Val 50) (Some ''A1'')]"
  let ?o = "[(item 1 (Val 100) (Some ''A1''))\<lparr>ID_Match := True, Tax_Match := True\<rparr>,
      (item 2 (Val 50) (Some ''A1''))\<lparr>ID_Match := True, Tax_Match := True\<rparr>]"
  have e: "evaluate_items ?d (Val 1) Map.empty = Inr ?o"
    by (simp add: eval_defs)
  have h: "evaluate_items ?d (Val 1) Map.empty = Inr ?o \<and> 0 < length ?d
        \<and> ID (?d ! 0) = Some 123 \<and> 1 < length (id_recs_of ?d 123)
        \<and> (\<forall>r \<in> set (id_recs_of ?d 123). f_lt (Val 0) (DC_Amount r))"
    using e by (simp add: id_recs_of_def parsed_row_def item_def)
  have "Amount_Match (?o ! 0) = Amount_Match (?d ! 0)"
    using evaluate_items_amount_match [of ?d, THEN conjunct2, THEN conjunct1, rule_format,
        of "Val 1" Map.empty ?o 0 123, OF h] .
  then have n: "\<not> Amount_Match (?o ! 0)"
    by (simp add: parsed_row_def item_def)
  have m: "evaluate_items
     [item 1 (Val 100) (Some ''A1''),
      item 2 (Val (- 100)) (Some ''A1'')]
     (Val 1) Map.empty
     = Inr [(item 1 (Val 100) (Some ''A1''))\<lparr>ID_Match := True, Amount_Match := True, Tax_Match := True\<rparr>,
      (item 2 (Val (- 100)) (Some ''A1''))\<lparr>ID_Match := True, Amount_Match := True, Tax_Match := True\<rparr>]"
    by (rule evaluate_items_amount_match [of "[]", THEN conjunct2, THEN conjunct2, rule_format])
       (simp add: parsed_row_def item_def resolve_thresh_def)
  from e n m show ?thesis by blast
qed

text \<open>
  Claim C1 as stated, with the exact sum of the amounts, does not hold. The amounts
  \<open>1e16, 1, -1e16, -1\<close> sum to exactly 0, which is below the threshold 1.0, and the
  group has positive and negative members; in float64 the running sum is
  \<open>1e16, 1e16, 0, -1\<close>, so the sum compared with the threshold is \<open>-1.0\<close> and the group is
  not amount-matched. In the other direction, the amounts 0.13 and -1.13 are stored as
  the nearest float64 numbers; their decimal sum has absolute value 1.00, which is not
  strictly below the threshold 1.0, yet the float sum is \<open>-0.9999999999999999\<close> and the
  group is amount-matched.
\<close>

theorem evaluate_items_amount_match_counterexample:
  "exact_sum [Val 10000000000000000, Val 1, Val (- 10000000000000000), Val (- 1)] = 0
   \<and> evaluate_items
     [item 1 (Val 10000000000000000) (Some ''A1''),
      item 2 (Val 1) (Some ''A1''),
      item 3 (Val (- 10000000000000000)) (Some ''A1''),
      item 4 (Val (- 1)) (Some ''A1'')]
     (Val 1) Map.empty
     = Inr [(item 1 (Val 10000000000000000) (Some ''A1''))\<lparr>ID_Match := True, Tax_Match := True\<rparr>,
      (item 2 (Val 1) (Some ''A1''))\<lparr>ID_Match := True, Tax_Match := True\<rparr>,
      (item 3 (Val (- 10000000000000000)) (Some ''A1''))\<lparr>ID_Match := True, Tax_Match := True\<rparr>,
      (item 4 (Val (- 1)) (Some ''A1''))\<lparr>ID_Match := True, Tax_Match := True\<rparr>]
   \<and> round64 (13 / 100) = float_0_13
   \<and> round64 (- (113 / 100)) = float_neg_1_13
   \<and> \<not> \<bar>13 / 100 + - (113 / 100)\<bar> < (1 :: real)
   \<and> evaluate_items
     [item 1 float_0_13 (Some ''A1''),
      item 2 float_neg_1_13 (Some ''A1'')]
     (Val 1) Map.empty
     = Inr [(item 1 float_0_13 (Some ''A1''))\<lparr>ID_Match := True, Amount_Match := True, Tax_Match := True\<rparr>,
      (item 2 float_neg_1_13 (Some ''A1''))\<lparr>ID_Match := True, Amount_Match := True, Tax_Match := True\<rparr>]"
proof -
  have a: "exact_sum [Val 10000000000000000, Val 1, Val (- 10000000000000000), Val (- 1)] = 0"
    by (simp add: exact_sum_def)
  have b: "evaluate_items
     [item 1 (Val 10000000000000000) (Some ''A1''),
      item 2 (Val 1) (Some ''A1''),
      item 3 (Val (- 10000000000000000)) (Some ''A1''),
      item 4 (Val (- 1)) (Some ''A1'')]
     (Val 1) Map.empty
     = Inr [(item 1 (Val 10000000000000000) (Some ''A1''))\<lparr>ID_Match := True, Tax_Match := True\<rparr>,
      (item 2 (Val 1) (Some ''A1''))\<lparr>ID_Match := True, Tax_Match := True\<rparr>,
      (item 3 (Val (- 10000000000000000)) (Some ''A1''))\<lparr>ID_Match := True, Tax_Match := True\<rparr>,
      (item 4 (Val (- 1)) (Some ''A1''))\<lparr>ID_Match := True, Tax_Match := True\<rparr>]"
    by (simp add: eval_defs round64_1e16 round64_1e16_plus_1 round64_neg_1)
  have c: "round64 (13 / 100) = float_0_13"
    unfolding float_0_13_def by (rule round64_dec_0_13)
  have d: "round64 (- (113 / 100)) = float_neg_1_13"
    unfolding float_neg_1_13_def by (rule round64_dec_neg_1_13)
  have e: "\<not> \<bar>13 / 100 + - (113 / 100)\<bar> < (1 :: real)"
    by simp
  have f: "evaluate_items
     [item 1 float_0_13 (Some ''A1''),
      item 2 float_neg_1_13 (Some ''A1'')]
     (Val 1) Map.empty
     = Inr [(item 1 float_0_13 (Some ''A1''))\<lparr>ID_Match := True, Amount_Match := True, Tax_Match := True\<rparr>,
      (item 2 float_neg_1_13 (Some ''A1''))\<lparr>ID_Match := True, Amount_Match := True, Tax_Match := True\<rparr>]"
    by (simp add: eval_defs float_0_13_def float_neg_1_13_def round64_0_13 round64_diff_1)
  from a b c d e f show ?thesis by (intro conjI)
qed




text \<open>
  Claim C8. Evaluation followed by the extraction of the matched items is idempotent:
  when \<open>evaluate_items\<close> returns \<open>out\<close>, evaluating \<open>out\<close> again with the same
  thresholds returns normally, returns \<open>out\<close> itself, and so yields the same matched
  subset.
\<close>

theorem evaluate_items_idempotent:
  assumes "evaluate_items consolid base ths = Inr out"
  shows "\<exists>out2. evaluate_items out base ths = Inr out2
           \<and> get_matched_items out2 = get_matched_items out \<and> out2 = out"
proof -
  let ?b = "adjust_base base"
  let ?f = "eval_row ?b ths consolid"
  have ok: "\<forall>v. 1 < length (id_recs_of consolid v) \<longrightarrow> group_err ?b ths consolid v = None"
    using assms by (simp add: evaluate_items_Inr_iff)
  have out: "out = map ?f consolid"
    using assms by (rule evaluate_items_rows)
  have len: "length (id_recs_of out v) = length (id_recs_of consolid v)" for v
    unfolding out by (rule id_recs_of_map_length) simp
  have er: "group_err ?b ths out v = group_err ?b ths consolid v" for v
    unfolding out by (rule group_keys(4)) simp_all
  have row: "eval_row ?b ths out r = ?f r" for r
    unfolding out by (rule eval_row_map_keys) simp_all
  have "map (eval_row ?b ths out) out = out"
    unfolding row unfolding out by (simp add: eval_row_idem)
  moreover have "\<forall>v. 1 < length (id_recs_of out v) \<longrightarrow> group_err ?b ths out v = None"
    unfolding len er by (rule ok)
  ultimately have "evaluate_items out base ths = Inr out"
    by (simp only: evaluate_items_Inr_iff simp_thms)
  then show ?thesis by simp
qed

theorem evaluate_items_idempotent_witness:
  "evaluate_items
     [item 1 (Val 100) (Some ''A1''),
      item 2 (Val (- 100)) (Some ''A1''),
      parsed_row 3 ''DZ'' (Val 5) ''EUR'' (Some ''A1'') ''no case'' 10 10 None]
     (Val 1) Map.empty
     = Inr [(item 1 (Val 100) (Some ''A1''))\<lparr>ID_Match := True, Amount_Match := True, Tax_Match := True\<rparr>,
      (item 2 (Val (- 100)) (Some ''A1''))\<lparr>ID_Match := True, Amount_Match := True, Tax_Match := True\<rparr>,
      parsed_row 3 ''DZ'' (Val 5) ''EUR'' (Some ''A1'') ''no case'' 10 10 None]
   \<and> evaluate_items
     [(item 1 (Val 100) (Some ''A1''))\<lparr>ID_Match := True, Amount_Match := True, Tax_Match := True\<rparr>,
      (item 2 (Val (- 100)) (Some ''A1''))\<lparr>ID_Match := True, Amount_Match := True, Tax_Match := True\<rparr>,
      parsed_row 3 ''DZ'' (Val 5) ''EUR'' (Some ''A1'') ''no case'' 10 10 None]
     (Val 1) Map.empty
     = Inr [(item 1 (Val 100) (Some ''A1''))\<lparr>ID_Match := True, Amount_Match := True, Tax_Match := True\<rparr>,
      (item 2 (Val (- 100)) (Some ''A1''))\<lparr>ID_Match := True, Amount_Match := True, Tax_Match := True\<rparr>,
      parsed_row 3 ''DZ'' (Val 5) ''EUR'' (Some ''A1'') ''no case'' 10 10 None]
   \<and> get_matched_items
     [(item 1 (Val 100) (Some ''A1''))\<lparr>ID_Match := True, Amount_Match := True, Tax_Match := True\<rparr>,
      (item 2 (Val (- 100)) (Some ''A1''))\<lparr>ID_Match := True, Amount_Match := True, Tax_Match := True\<rparr>,
      parsed_row 3 ''DZ'' (Val 5) ''EUR'' (Some ''A1'') ''no case'' 10 10 None]
     = [(item 1 (Val 100) (Some ''A1''))\<lparr>ID_Match := True, Amount_Match := True, Tax_Match := True\<rparr>,
      (item 2 (Val (- 100)) (Some ''A1''))\<lparr>ID_Match := True, Amount_Match := True, Tax_Match := True\<rparr>]"
proof -
  let ?d = "[item 1 (Val 100) (Some ''A1''),
      item 2 (Val (- 100)) (Some ''A1''),
      parsed_row 3 ''DZ'' (Val 5) ''EUR'' (Some ''A1'') ''no case'' 10 10 None]"
  let ?o = "[(item 1 (Val 100) (Some ''A1''))\<lparr>ID_Match := True, Amount_Match := True, Tax_Match := True\<rparr>,
      (item 2 (Val (- 100)) (Some ''A1''))\<lparr>ID_Match := True, Amount_Match := True, Tax_Match := True\<rparr>,
      parsed_row 3 ''DZ'' (Val 5) ''EUR'' (Some ''A1'') ''no case'' 10 10 None]"
  have e: "evaluate_items ?d (Val 1) Map.empty = Inr ?o"
    by (simp add: eval_defs round64_100)
  have "evaluate_items ?o (Val 1) Map.empty = Inr ?o"
    using evaluate_items_idempotent [OF e] by blast
  moreover have "get_matched_items ?o = take 2 ?o"
    by (simp add: get_matched_items_def parsed_row_def item_def)
  ultimately show ?thesis using e by simp
qed

text \<open>
  Claim C7, as the code has it. A base threshold of exactly 0 becomes the float
  \<open>0 + 0.01\<close>, which is the float64 nearest to 1/100 (\<open>float_0_01\<close>): evaluating with
  base threshold 0 is the same computation as evaluating with base threshold 0.01. For
  a group with a duplicated identifier whose selected tax code has no per-tax-code
  threshold, the resolved threshold is \<open>float_0_01\<close> when the base threshold is 0 and
  the base threshold as given otherwise; with base threshold 0 a group whose float sum
  (\<open>series_sum\<close>, as \<open>Series.sum\<close> computes it) is 0.0, with a positive and a negative
  member, is amount-matched, and for a group whose float sum is 0.02 (\<open>float_0_02\<close>) the
  call leaves \<open>Amount_Match\<close> as it was.
\<close>

theorem evaluate_items_zero_base:
  fixes consolid :: "'a fbl5n_row_scheme list"
  shows
  "adjust_base (Val 0) = float_0_01 \<and> round64 (1 / 100) = float_0_01
   \<and> evaluate_items consolid (Val 0) ths = evaluate_items consolid float_0_01 ths
   \<and> (\<forall>base out i v.
        evaluate_items consolid base ths = Inr out \<and> i < length consolid
          \<and> ID (consolid ! i) = Some v \<and> 1 < length (id_recs_of consolid v)
          \<and> (\<forall>c. tax_code_of (group_taxes consolid v) = Inr (Some c) \<longrightarrow> ths c = None)
        \<longrightarrow> group_thresh (adjust_base base) ths consolid v
              = Inr (if base = Val 0 then float_0_01 else base)
            \<and> (base = Val 0 \<and> series_sum (map DC_Amount (id_recs_of consolid v)) = Val 0
                 \<and> (\<exists>r \<in> set (id_recs_of consolid v). f_lt (Val 0) (DC_Amount r))
                 \<and> (\<exists>r \<in> set (id_recs_of consolid v). f_lt (DC_Amount r) (Val 0))
               \<longrightarrow> Amount_Match (out ! i))
            \<and> (base = Val 0
                 \<and> series_sum (map DC_Amount (id_recs_of consolid v)) = float_0_02
               \<longrightarrow> Amount_Match (out ! i) = Amount_Match (consolid ! i)))"
proof (intro conjI allI impI)
  show "adjust_base (Val 0) = float_0_01" by (rule adjust_base_0)
next
  show "round64 (1 / 100) = float_0_01"
    unfolding float_0_01_def by (rule round64_dec_0_01)
next
  have "adjust_base float_0_01 = float_0_01"
    by (rule adjust_base_other) (simp add: float_0_01_def)
  then show "evaluate_items consolid (Val 0) ths = evaluate_items consolid float_0_01 ths"
    by (simp only: evaluate_items_char adjust_base_0)
next
  fix base out i v
  assume a: "evaluate_items consolid base ths = Inr out \<and> i < length consolid
          \<and> ID (consolid ! i) = Some v \<and> 1 < length (id_recs_of consolid v)
          \<and> (\<forall>c. tax_code_of (group_taxes consolid v) = Inr (Some c) \<longrightarrow> ths c = None)"
  have ab: "adjust_base base = (if base = Val 0 then float_0_01 else base)"
    by (simp add: adjust_base_0 adjust_base_other)
  from a have "group_err (adjust_base base) ths consolid v = None"
    using evaluate_items_no_err [of consolid base ths out v] by simp
  then obtain th0 where th0: "group_thresh (adjust_base base) ths consolid v = Inr th0"
    by (rule group_err_NoneD)
  then obtain tc where tc: "tax_code_of (group_taxes consolid v) = Inr tc"
    by (auto simp: group_thresh_def split: sum.splits)
  have "resolve_thresh (adjust_base base) ths tc = adjust_base base"
    using a tc by (cases tc) (simp_all add: resolve_thresh_def)
  then show th: "group_thresh (adjust_base base) ths consolid v
                   = Inr (if base = Val 0 then float_0_01 else base)"
    by (simp add: group_thresh_def tc ab)
  from a have row: "out ! i = group_upd (adjust_base base) ths consolid v
                         ((consolid ! i)\<lparr>ID_Match := True\<rparr>)"
    using evaluate_items_nth [of consolid base ths out i]
      eval_row_dup [of "consolid ! i" v consolid "adjust_base base" ths] by simp
  {
    assume b: "base = Val 0 \<and> series_sum (map DC_Amount (id_recs_of consolid v)) = Val 0
                 \<and> (\<exists>r \<in> set (id_recs_of consolid v). f_lt (Val 0) (DC_Amount r))
                 \<and> (\<exists>r \<in> set (id_recs_of consolid v). f_lt (DC_Amount r) (Val 0))"
    then have "group_amount_ok (adjust_base base) ths consolid v"
      unfolding group_amount_ok_def th amounts_match_def list_ex_iff
      by (simp add: float_0_01_def)
    then show "Amount_Match (out ! i)"
      by (simp add: row group_upd_def)
  next
    assume b: "base = Val 0
                 \<and> series_sum (map DC_Amount (id_recs_of consolid v)) = float_0_02"
    then have "\<not> group_amount_ok (adjust_base base) ths consolid v"
      unfolding group_amount_ok_def th amounts_match_def
      by (simp add: float_0_01_def float_0_02_def)
    then show "Amount_Match (out ! i) = Amount_Match (consolid ! i)"
      by (simp add: row group_upd_def)
  }
qed

theorem evaluate_items_zero_base_witness:
  "evaluate_items
     [item 1 (Val 100) (Some ''A1''),
      item 2 (Val (- 100)) (Some ''A1'')]
     (Val 0) Map.empty
     = Inr [(item 1 (Val 100) (Some ''A1''))\<lparr>ID_Match := True, Amount_Match := True, Tax_Match := True\<rparr>,
      (item 2 (Val (- 100)) (Some ''A1''))\<lparr>ID_Match := True, Amount_Match := True, Tax_Match := True\<rparr>]
   \<and> Amount_Match
        ([(item 1 (Val 100) (Some ''A1''))\<lparr>ID_Match := True, Amount_Match := True, Tax_Match := True\<rparr>,
      (item 2 (Val (- 100)) (Some ''A1''))\<lparr>ID_Match := True, Amount_Match := True, Tax_Match := True\<rparr>] ! 0)
   \<and> evaluate_items
     [item 1 float_0_04 (Some ''A1''),
      item 2 (Val (- (5764607523034235 / 288230376151711744))) (Some ''A1'')]
     (Val 0) Map.empty
     = Inr [(item 1 float_0_04 (Some ''A1''))\<lparr>ID_Match := True, Tax_Match := True\<rparr>,
      (item 2 (Val (- (5764607523034235 / 288230376151711744))) (Some ''A1''))\<lparr>ID_Match := True, Tax_Match := True\<rparr>]
   \<and> series_sum (map DC_Amount
       [item 1 float_0_04 (Some ''A1''),
      item 2 (Val (- (5764607523034235 / 288230376151711744))) (Some ''A1'')]) = float_0_02"
proof -
  let ?d = "[item 1 (Val 100) (Some ''A1''),
      item 2 (Val (- 100)) (Some ''A1'')]"
  let ?o = "[(item 1 (Val 100) (Some ''A1''))\<lparr>ID_Match := True, Amount_Match := True, Tax_Match := True\<rparr>,
      (item 2 (Val (- 100)) (Some ''A1''))\<lparr>ID_Match := True, Amount_Match := True, Tax_Match := True\<rparr>]"
  let ?d2 = "[item 1 float_0_04 (Some ''A1''),
      item 2 (Val (- (5764607523034235 / 288230376151711744))) (Some ''A1'')]"
  let ?o2 = "[(item 1 float_0_04 (Some ''A1''))\<lparr>ID_Match := True, Tax_Match := True\<rparr>,
      (item 2 (Val (- (5764607523034235 / 288230376151711744))) (Some ''A1''))\<lparr>ID_Match := True, Tax_Match := True\<rparr>]"
  have e: "evaluate_items ?d (Val 0) Map.empty = Inr ?o"
    by (simp add: eval_defs round64_100 float_0_01_def round64_0_01)
  have h: "evaluate_items ?d (Val 0) Map.empty = Inr ?o \<and> 0 < length ?d
          \<and> ID (?d ! 0) = Some 123 \<and> 1 < length (id_recs_of ?d 123)
          \<and> (\<forall>c. tax_code_of (group_taxes ?d 123) = Inr (Some c) \<longrightarrow> Map.empty c = None)"
    using e by (simp add: id_recs_of_def parsed_row_def item_def)
  have b: "Val 0 = Val 0 \<and> series_sum (map DC_Amount (id_recs_of ?d 123)) = Val 0
                 \<and> (\<exists>r \<in> set (id_recs_of ?d 123). f_lt (Val 0) (DC_Amount r))
                 \<and> (\<exists>r \<in> set (id_recs_of ?d 123). f_lt (DC_Amount r) (Val 0))"
    by (simp add: id_recs_of_def parsed_row_def item_def series_sum_100)
  have a: "Amount_Match (?o ! 0)"
    using evaluate_items_zero_base [of ?d Map.empty, THEN conjunct2, THEN conjunct2,
        THEN conjunct2, rule_format, of "Val 0" ?o 0 123, OF h, THEN conjunct2,
        THEN conjunct1, rule_format, OF b] .
  have s2: "series_sum (map DC_Amount ?d2) = float_0_02"
    by (simp add: parsed_row_def item_def float_0_04_def float_0_02_def series_sum_small
        f_add_Val round64_0_04 round64_0_02)
  have e2: "evaluate_items ?d2 (Val 0) Map.empty = Inr ?o2"
    by (simp add: eval_defs float_0_04_def float_0_01_def round64_0_04 round64_0_02
        round64_0_01)
  from e a e2 s2 show ?thesis by (intro conjI)
qed

text \<open>
  Claim C7 as stated, with the exact sum of the amounts, does not hold. With base
  threshold 0 the amounts \<open>2^53, 1, -2^53, -1\<close> sum to exactly 0.00 and the group has
  positive and negative members; in float64 the running sum is \<open>2^53, 2^53, 0, -1\<close>, so
  the group is not amount-matched. In the other direction, the amounts 0.06 and -0.05
  are stored as the nearest float64 numbers; their decimal sum is 0.01, which is not
  strictly below 0.01, yet the float sum \<open>0.009999999999999995\<close> is below the float
  threshold and the group is amount-matched.
\<close>

theorem evaluate_items_zero_base_counterexample:
  "exact_sum [Val 9007199254740992, Val 1, Val (- 9007199254740992), Val (- 1)] = 0
   \<and> evaluate_items
     [item 1 (Val 9007199254740992) (Some ''A1''),
      item 2 (Val 1) (Some ''A1''),
      item 3 (Val (- 9007199254740992)) (Some ''A1''),
      item 4 (Val (- 1)) (Some ''A1'')]
     (Val 0) Map.empty
     = Inr [(item 1 (Val 9007199254740992) (Some ''A1''))\<lparr>ID_Match := True, Tax_Match := True\<rparr>,
      (item 2 (Val 1) (Some ''A1''))\<lparr>ID_Match := True, Tax_Match := True\<rparr>,
      (item 3 (Val (- 9007199254740992)) (Some ''A1''))\<lparr>ID_Match := True, Tax_Match := True\<rparr>,
      (item 4 (Val (- 1)) (Some ''A1''))\<lparr>ID_Match := True, Tax_Match := True\<rparr>]
   \<and> round64 (6 / 100) = float_0_06
   \<and> round64 (- (5 / 100)) = float_neg_0_05
   \<and> \<not> \<bar>6 / 100 + - (5 / 100)\<bar> < (1 / 100 :: real)
   \<and> evaluate_items
     [item 1 float_0_06 (Some ''A1''),
      item 2 float_neg_0_05 (Some ''A1'')]
     (Val 0) Map.empty
     = Inr [(item 1 float_0_06 (Some ''A1''))\<lparr>ID_Match := True, Amount_Match := True, Tax_Match := True\<rparr>,
      (item 2 float_neg_0_05 (Some ''A1''))\<lparr>ID_Match := True, Amount_Match := True, Tax_Match := True\<rparr>]"
proof -
  have a: "exact_sum [Val 9007199254740992, Val 1, Val (- 9007199254740992), Val (- 1)] = 0"
    by (simp add: exact_sum_def)
  have b: "evaluate_items
     [item 1 (Val 9007199254740992) (Some ''A1''),
      item 2 (Val 1) (Some ''A1''),
      item 3 (Val (- 9007199254740992)) (Some ''A1''),
      item 4 (Val (- 1)) (Some ''A1'')]
     (Val 0) Map.empty
     = Inr [(item 1 (Val 9007199254740992) (Some ''A1''))\<lparr>ID_Match := True, Tax_Match := True\<rparr>,
      (item 2 (Val 1) (Some ''A1''))\<lparr>ID_Match := True, Tax_Match := True\<rparr>,
      (item 3 (Val (- 9007199254740992)) (Some ''A1''))\<lparr>ID_Match := True, Tax_Match := True\<rparr>,
      (item 4 (Val (- 1)) (Some ''A1''))\<lparr>ID_Match := True, Tax_Match := True\<rparr>]"
    by (simp add: eval_defs round64_2p53 round64_2p53_plus_1 round64_neg_1 float_0_01_def
        round64_0_01)
  have c: "round64 (6 / 100) = float_0_06"
    unfolding float_0_06_def by (rule round64_dec_0_06)
  have d: "round64 (- (5 / 100)) = float_neg_0_05"
    unfolding float_neg_0_05_def by (rule round64_dec_neg_0_05)
  have e: "\<not> \<bar>6 / 100 + - (5 / 100)\<bar> < (1 / 100 :: real)"
    by simp
  have f: "evaluate_items
     [item 1 float_0_06 (Some ''A1''),
      item 2 float_neg_0_05 (Some ''A1'')]
     (Val 0) Map.empty
     = Inr [(item 1 float_0_06 (Some ''A1''))\<lparr>ID_Match := True, Amount_Match := True, Tax_Match := True\<rparr>,
      (item 2 float_neg_0_05 (Some ''A1''))\<lparr>ID_Match := True, Amount_Match := True, Tax_Match := True\<rparr>]"
    by (simp add: eval_defs float_0_06_def float_neg_0_05_def float_0_01_def round64_0_06
        round64_diff_2 round64_0_01)
  from a b c d e f show ?thesis by (intro conjI)
qed

text \<open>
  Claim C10. \<open>evaluate_items\<close> returns a record set with exactly the rows of its input,
  in the same order; every field of a row other than \<open>ID_Match\<close>, \<open>Tax_Match\<close> and
  \<open>Amount_Match\<close> is unchanged (the returned row is the input row with those three
  fields set), and each of the three flags that was true stays true. The input object
  is not written to: the result is a new object, and every object that existed before
  the call, the input among them, has its content unchanged.
\<close>

theorem evaluate_items_frame:
  assumes ev: "evaluate_items_obj objs consolid base ths = Inr (objs', res)"
    and ref: "consolid < length objs"
  shows "(\<forall>k < length objs. objs' ! k = objs ! k)
       \<and> res = length objs \<and> length objs' = Suc (length objs)
       \<and> length (objs' ! res) = length (objs ! consolid)
       \<and> (\<forall>i < length (objs ! consolid).
            objs' ! res ! i =
              (objs ! consolid ! i)\<lparr>ID_Match := ID_Match (objs' ! res ! i),
                 Tax_Match := Tax_Match (objs' ! res ! i),
                 Amount_Match := Amount_Match (objs' ! res ! i)\<rparr>
            \<and> (ID_Match (objs ! consolid ! i) \<longrightarrow> ID_Match (objs' ! res ! i))
            \<and> (Tax_Match (objs ! consolid ! i) \<longrightarrow> Tax_Match (objs' ! res ! i))
            \<and> (Amount_Match (objs ! consolid ! i) \<longrightarrow> Amount_Match (objs' ! res ! i)))"
proof -
  let ?d = "objs ! consolid"
  have cp: "(objs @ [?d]) ! length objs = ?d" by simp
  from ev obtain out where out: "evaluate_items ?d base ths = Inr out"
    and o': "objs' = (objs @ [?d])[length objs := out]" and r: "res = length objs"
    by (auto simp: evaluate_items_obj_def df_copy_def split: sum.splits)
  have rows: "out = map (eval_row (adjust_base base) ths ?d) ?d"
    using out by (rule evaluate_items_rows)
  have new: "objs' ! res = out" by (simp add: o' r)
  have old: "\<forall>k < length objs. objs' ! k = objs ! k"
    by (simp add: o' nth_append)
  have len: "length objs' = Suc (length objs)" by (simp add: o')
  have frame: "\<forall>i < length ?d.
            out ! i = (?d ! i)\<lparr>ID_Match := ID_Match (out ! i),
                 Tax_Match := Tax_Match (out ! i), Amount_Match := Amount_Match (out ! i)\<rparr>
            \<and> (ID_Match (?d ! i) \<longrightarrow> ID_Match (out ! i))
            \<and> (Tax_Match (?d ! i) \<longrightarrow> Tax_Match (out ! i))
            \<and> (Amount_Match (?d ! i) \<longrightarrow> Amount_Match (out ! i))"
  proof (intro allI impI conjI)
    fix i assume i: "i < length ?d"
    then have oi: "out ! i = eval_row (adjust_base base) ths ?d (?d ! i)"
      by (simp add: rows)
    show "out ! i = (?d ! i)\<lparr>ID_Match := ID_Match (out ! i),
                 Tax_Match := Tax_Match (out ! i), Amount_Match := Amount_Match (out ! i)\<rparr>"
      unfolding oi by (rule eval_row_frame)
    show "ID_Match (?d ! i) \<Longrightarrow> ID_Match (out ! i)"
      unfolding oi by (rule eval_row_mono)
    show "Tax_Match (?d ! i) \<Longrightarrow> Tax_Match (out ! i)"
      unfolding oi by (rule eval_row_mono)
    show "Amount_Match (?d ! i) \<Longrightarrow> Amount_Match (out ! i)"
      unfolding oi by (rule eval_row_mono)
  qed
  have l: "length out = length ?d" by (simp add: rows)
  from old r len l frame show ?thesis
    unfolding new by (intro conjI)
qed



theorem evaluate_items_frame_witness:
  "evaluate_items_obj
     [[item 1 (Val 100) (Some ''A1''),
      item 2 (Val (- 100)) (Some ''A1'')]] 0 (Val 1) Map.empty
     = Inr ([[item 1 (Val 100) (Some ''A1''),
      item 2 (Val (- 100)) (Some ''A1'')],
             [(item 1 (Val 100) (Some ''A1''))\<lparr>ID_Match := True, Amount_Match := True, Tax_Match := True\<rparr>,
      (item 2 (Val (- 100)) (Some ''A1''))\<lparr>ID_Match := True, Amount_Match := True, Tax_Match := True\<rparr>]], 1)
   \<and> (1 :: nat) = length
         [[item 1 (Val 100) (Some ''A1''),
      item 2 (Val (- 100)) (Some ''A1'')]]
   \<and> [[item 1 (Val 100) (Some ''A1''),
      item 2 (Val (- 100)) (Some ''A1'')],
       [(item 1 (Val 100) (Some ''A1''))\<lparr>ID_Match := True, Amount_Match := True, Tax_Match := True\<rparr>,
      (item 2 (Val (- 100)) (Some ''A1''))\<lparr>ID_Match := True, Amount_Match := True, Tax_Match := True\<rparr>]] ! 0
       = [[item 1 (Val 100) (Some ''A1''),
      item 2 (Val (- 100)) (Some ''A1'')]] ! 0"
proof -
  let ?d = "[item 1 (Val 100) (Some ''A1''),
      item 2 (Val (- 100)) (Some ''A1'')]"
  let ?o = "[(item 1 (Val 100) (Some ''A1''))\<lparr>ID_Match := True, Amount_Match := True, Tax_Match := True\<rparr>,
      (item 2 (Val (- 100)) (Some ''A1''))\<lparr>ID_Match := True, Amount_Match := True, Tax_Match := True\<rparr>]"
  have e0: "evaluate_items ?d (Val 1) Map.empty = Inr ?o"
    by (simp add: eval_defs round64_100)
  have e: "evaluate_items_obj [?d] 0 (Val 1) Map.empty = Inr ([?d, ?o], 1)"
    using e0 by (simp add: evaluate_items_obj_def df_copy_def)
  have ref: "0 < length [?d]" by simp
  note f = evaluate_items_frame [OF e ref]
  from f have "(1 :: nat) = length [?d]" by blast
  moreover from f have "[?d, ?o] ! 0 = [?d] ! 0" by blast
  ultimately show ?thesis using e by blast
qed

section \<open>Claim about the root cause\<close>

text \<open>
  Claim C3. \<open>_get_new_root_cause\<close> never returns a value outside \<open>{L01, L06}\<close>. A
  previously assigned \<open>L01\<close> or \<open>L06\<close> is returned unchanged, whatever the document
  types (a prior \<open>L06\<close> with the document type \<open>DZ\<close>, which alone implies \<open>L01\<close>, stays
  \<open>L06\<close>). Otherwise the result is \<open>L06\<close> when the credit-memo type \<open>DG\<close> is present,
  else \<open>L01\<close> when \<open>DZ\<close> or \<open>DA\<close> is present. Any other input is the invariant violation:
  the function does not return but raises (\<open>UnboundLocalError\<close>), and so does the call
  site; the assertion of the call site never fails on a returned value.
\<close>

theorem get_new_root_cause_sticky:
  "(\<forall>r. get_new_root_cause prev dts = Inr r \<longrightarrow> r = ''L01'' \<or> r = ''L06'')
   \<and> (prev = ''L01'' \<or> prev = ''L06'' \<longrightarrow> get_new_root_cause prev dts = Inr prev)
   \<and> get_new_root_cause ''L06'' [''DZ''] = Inr ''L06''
   \<and> (prev \<noteq> ''L01'' \<and> prev \<noteq> ''L06'' \<and> ''DG'' \<in> set dts
        \<longrightarrow> get_new_root_cause prev dts = Inr ''L06'')
   \<and> (prev \<noteq> ''L01'' \<and> prev \<noteq> ''L06'' \<and> ''DG'' \<notin> set dts
         \<and> (''DZ'' \<in> set dts \<or> ''DA'' \<in> set dts)
        \<longrightarrow> get_new_root_cause prev dts = Inr ''L01'')
   \<and> (prev \<noteq> ''L01'' \<and> prev \<noteq> ''L06'' \<and> ''DG'' \<notin> set dts
         \<and> ''DZ'' \<notin> set dts \<and> ''DA'' \<notin> set dts
        \<longrightarrow> get_new_root_cause prev dts = Inl UnboundLocalError
            \<and> checked_root_cause prev dts = Inl UnboundLocalError)
   \<and> (\<forall>r. checked_root_cause prev dts = Inr r \<longrightarrow> r = ''L01'' \<or> r = ''L06'')
   \<and> (\<forall>r. get_new_root_cause prev dts = Inr r \<longrightarrow> checked_root_cause prev dts = Inr r)"
  by (auto simp: get_new_root_cause_def checked_root_cause_def split: if_splits sum.splits)

theorem get_new_root_cause_sticky_witness:
  "get_new_root_cause ''L06'' [''DZ'', ''DA''] = Inr ''L06''
   \<and> get_new_root_cause ''L02'' [''DZ'', ''DG''] = Inr ''L06''
   \<and> get_new_root_cause ''L02'' [''DA''] = Inr ''L01''
   \<and> get_new_root_cause ''L02'' [''RV''] = Inl UnboundLocalError"
proof -
  note t = get_new_root_cause_sticky
  have a: "get_new_root_cause ''L06'' [''DZ'', ''DA''] = Inr ''L06''"
    using t [of "''L06''" "[''DZ'', ''DA'']"] by simp
  have b: "get_new_root_cause ''L02'' [''DZ'', ''DG''] = Inr ''L06''"
    using t [of "''L02''" "[''DZ'', ''DG'']"] by simp
  have c: "get_new_root_cause ''L02'' [''DA''] = Inr ''L01''"
    using t [of "''L02''" "[''DA'']"] by simp
  have d: "get_new_root_cause ''L02'' [''RV''] = Inl UnboundLocalError"
    using t [of "''L02''" "[''RV'']"] by simp
  from a b c d show ?thesis by blast
qed

section \<open>Claim about the virtual identifiers\<close>




end
